theory Spec2Isabelle
  imports Main "HOL-Library.Sublist" "HOL-Library.Char_ord" "HOL-Library.List_Lexorder"
    "HOL-Library.Product_Lexorder" "HOL-Library.AList"
begin

section \<open>Netlist comparison (compare.py)\<close>

text \<open>
  A shallow embedding of \<^verbatim>\<open>compare.py\<close>: the line parser \<^verbatim>\<open>parse_netlist\<close>, the
  per-net comparison loop of \<^verbatim>\<open>compare_netlists\<close>, \<^verbatim>\<open>categorize_nodes\<close>, the report
  generator \<^verbatim>\<open>generate_html_report\<close> and the command-line entry point.

  Python strings are modelled as \<^typ>\<open>string\<close>; characters are those of the 8-bit range, so
  the character classes below (\<^verbatim>\<open>str.isspace\<close>, the regular expression class \<^verbatim>\<open>\d\<close>) are the
  restrictions of Python's Unicode classes to code points below 256. A dictionary is an
  association list updated with \<^const>\<open>AList.update\<close>: assigning to an existing key keeps
  the key's position, assigning to a new key appends it, as Python dictionaries do.
\<close>

subsection \<open>Strings and the regular expressions of the source\<close>

definition isspace :: "char \<Rightarrow> bool" where
  "isspace c = ((of_char c :: nat) \<in> set [9, 10, 11, 12, 13, 28, 29, 30, 31, 32, 133, 160])"

definition strip :: "string \<Rightarrow> string" where
  "strip s = rev (dropWhile isspace (rev (dropWhile isspace s)))"

definition startswith :: "string \<Rightarrow> string \<Rightarrow> bool" where
  "startswith s p = prefix p s"

definition isdigit :: "char \<Rightarrow> bool" where
  "isdigit c = (CHR ''0'' \<le> c \<and> c \<le> CHR ''9'')"

text \<open>
  The regular expressions are matched the way Python's backtracking matcher does, written
  in continuation-passing style: a matcher takes the matcher of the rest of the pattern and
  the remaining input. \<open>lit\<close> is a literal, \<open>lazy_any\<close> the group \<^verbatim>\<open>(.*?)\<close> (shortest
  first, and \<^verbatim>\<open>.\<close> does not match a newline), \<open>greedy_plus\<close> the group \<^verbatim>\<open>(\d+)\<close> (longest
  first). \<open>re_end\<close> ends a pattern: \<^verbatim>\<open>re.match\<close> and \<^verbatim>\<open>re.search\<close> accept any rest.
\<close>

type_synonym 'a matcher = "string \<Rightarrow> 'a option"

definition lit :: "string \<Rightarrow> 'a matcher \<Rightarrow> 'a matcher" where
  "lit p k s = (if prefix p s then k (drop (length p) s) else None)"

primrec lazy_any :: "'a matcher \<Rightarrow> (string \<times> 'a) matcher" where
  "lazy_any k [] = map_option (Pair []) (k [])"
| "lazy_any k (c # cs) =
     (case k (c # cs) of
        Some r \<Rightarrow> Some ([], r)
      | None \<Rightarrow>
          if c = CHR 0x0A then None
          else map_option (\<lambda>(g, r). (c # g, r)) (lazy_any k cs))"

primrec greedy_star :: "(char \<Rightarrow> bool) \<Rightarrow> 'a matcher \<Rightarrow> (string \<times> 'a) matcher" where
  "greedy_star p k [] = map_option (Pair []) (k [])"
| "greedy_star p k (c # cs) =
     (case (if p c then greedy_star p k cs else None) of
        Some (g, r) \<Rightarrow> Some (c # g, r)
      | None \<Rightarrow> map_option (Pair []) (k (c # cs)))"

definition greedy_plus :: "(char \<Rightarrow> bool) \<Rightarrow> 'a matcher \<Rightarrow> (string \<times> 'a) matcher" where
  "greedy_plus p k s =
     (case s of
        [] \<Rightarrow> None
      | c # cs \<Rightarrow>
          if p c then map_option (\<lambda>(g, r). (c # g, r)) (greedy_star p k cs) else None)"

definition re_end :: "unit matcher" where
  "re_end s = Some ()"

primrec re_search :: "'a matcher \<Rightarrow> 'a matcher" where
  "re_search k [] = k []"
| "re_search k (c # cs) = (case k (c # cs) of Some r \<Rightarrow> Some r | None \<Rightarrow> re_search k cs)"

text \<open>\<^verbatim>\<open>re.match(r'\(net \(code "(\d+)"\) \(name "(.*?)"\)', line)\<close>: groups 1 and 2.\<close>

definition match_net :: "string \<Rightarrow> (string \<times> string) option" where
  \<open>match_net line =
     (case lit ''(net (code "'' (greedy_plus isdigit
             (lit ''") (name "'' (lazy_any (lit ''")'' re_end)))) line of
        None \<Rightarrow> None
      | Some (c, n, _) \<Rightarrow> Some (c, n))\<close>

text \<open>\<^verbatim>\<open>re.match(r'\(node \(ref "(.*?)"\) \(pin "(.*?)"\)', line)\<close>: groups 1 and 2.\<close>

definition match_node :: "string \<Rightarrow> (string \<times> string) option" where
  \<open>match_node line =
     (case lit ''(node (ref "'' (lazy_any
             (lit ''") (pin "'' (lazy_any (lit ''")'' re_end)))) line of
        None \<Rightarrow> None
      | Some (r, p, _) \<Rightarrow> Some (r, p))\<close>

text \<open>\<^verbatim>\<open>re.search(r'\(ref "(.*?)"\)', node)\<close>: group 1.\<close>

definition search_ref :: "string \<Rightarrow> string option" where
  \<open>search_ref node =
     (case re_search (lit ''(ref "'' (lazy_any (lit ''")'' re_end))) node of
        None \<Rightarrow> None
      | Some (r, _) \<Rightarrow> Some r)\<close>

text \<open>The f-string \<^verbatim>\<open>f'(node (ref "{ref}") (pin "{pin}"))'\<close>.\<close>

definition format_node :: "string \<Rightarrow> string \<Rightarrow> string" where
  \<open>format_node r p = ''(node (ref "'' @ r @ ''") (pin "'' @ p @ ''"))''\<close>

subsection \<open>parse_netlist\<close>

record net_entry =
  code :: string
  nodes :: "string list"

type_synonym netlist = "(string \<times> net_entry) list"
type_synonym codes = "(string \<times> string) list"

text \<open>
  The exceptions of the run. \<open>KeyError\<close> is what \<^verbatim>\<open>connections[net_name]\<close> raises for a
  missing key; \<open>OtherException\<close> carries the message of any other exception that opening or
  reading a file raises.
\<close>

datatype py_exception = FileNotFoundError | KeyError string | OtherException string

record parse_state =
  connections :: netlist
  net_codes :: codes
  net_name :: "string option"
  net_code :: "string option"
  in_nets_section :: bool

definition init_parse_state :: parse_state where
  "init_parse_state =
     \<lparr>connections = [], net_codes = [], net_name = None, net_code = None,
      in_nets_section = False\<rparr>"

text \<open>
  The body of the \<^verbatim>\<open>for line in lines\<close> loop. \<^verbatim>\<open>if net_name:\<close> is Python truthiness:
  false for \<^verbatim>\<open>None\<close> and for the empty string.
\<close>

definition append_node :: "parse_state \<Rightarrow> string \<Rightarrow> string \<Rightarrow> py_exception + parse_state" where
  "append_node st n nd =
     (case map_of (connections st) n of
        None \<Rightarrow> Inl (KeyError n)
      | Some e \<Rightarrow>
          Inr (st\<lparr>connections :=
                 AList.update n (e\<lparr>nodes := nodes e @ [nd]\<rparr>) (connections st)\<rparr>))"

definition parse_line :: "parse_state \<Rightarrow> string \<Rightarrow> py_exception + parse_state" where
  "parse_line st raw =
     (let line = strip raw in
      if startswith line ''(nets'' then Inr (st\<lparr>in_nets_section := True\<rparr>)
      else if startswith line ''(components'' then Inr (st\<lparr>in_nets_section := False\<rparr>)
      else
        case (if in_nets_section st \<and> startswith line ''(net'' then match_net line
              else None) of
          Some (c, n) \<Rightarrow>
            Inr (st\<lparr>net_code := Some c, net_name := Some n,
                    connections := AList.update n \<lparr>code = c, nodes = []\<rparr> (connections st),
                    net_codes := AList.update n c (net_codes st)\<rparr>)
        | None \<Rightarrow>
            if in_nets_section st \<and> startswith line ''(node'' then
              (case net_name st of
                 None \<Rightarrow> Inr st
               | Some n \<Rightarrow>
                   if n = [] then Inr st
                   else
                     (case match_node line of
                        None \<Rightarrow> Inr st
                      | Some (r, p) \<Rightarrow> append_node st n (format_node r p)))
            else Inr st)"

text \<open>
  The loop. An exception leaves the loop with the state built so far: the dictionaries are
  created before the \<^verbatim>\<open>try\<close> and returned after the handlers.
\<close>

fun parse_lines :: "parse_state \<Rightarrow> string list \<Rightarrow> py_exception option \<times> parse_state" where
  "parse_lines st [] = (None, st)"
| "parse_lines st (l # ls) =
     (case parse_line st l of
        Inl e \<Rightarrow> (Some e, st)
      | Inr st' \<Rightarrow> parse_lines st' ls)"

text \<open>
  The file system is a function from a path to what \<^verbatim>\<open>open\<close> followed by
  \<^verbatim>\<open>readlines\<close> gives: the exception raised, or the list of lines.
\<close>

type_synonym filesystem = "string \<Rightarrow> py_exception + string list"

definition exception_message :: "py_exception \<Rightarrow> string" where
  "exception_message e =
     (case e of
        FileNotFoundError \<Rightarrow> ''[Errno 2] No such file or directory''
      | KeyError k \<Rightarrow> [CHR 0x27] @ k @ [CHR 0x27]
      | OtherException m \<Rightarrow> m)"

definition report_exception :: "py_exception \<Rightarrow> string \<Rightarrow> string" where
  "report_exception e file_path =
     (case e of
        FileNotFoundError \<Rightarrow> ''Error: File '' @ file_path @ '' not found.''
      | _ \<Rightarrow> ''Error: An unexpected error occurred while parsing '' @ file_path @ '' - ''
             @ exception_message e)"

text \<open>\<open>parse_netlist\<close> returns the two dictionaries and the lines it printed.\<close>

definition parse_netlist :: "filesystem \<Rightarrow> string \<Rightarrow> (netlist \<times> codes) \<times> string list" where
  "parse_netlist fs file_path =
     (case fs file_path of
        Inl e \<Rightarrow> (([], []), [report_exception e file_path])
      | Inr lines \<Rightarrow>
          (case parse_lines init_parse_state lines of
             (None, st) \<Rightarrow> ((connections st, net_codes st), [])
           | (Some e, st) \<Rightarrow>
               ((connections st, net_codes st), [report_exception e file_path])))"

subsection \<open>The comparison loop of compare_netlists\<close>

text \<open>
  A result tuple is \<^verbatim>\<open>(net_name, net_code1, count1, net_code2, count2, is_mismatch)\<close>, a
  detailed entry \<^verbatim>\<open>(net_name, unique_nodes1, count_unique1, unique_nodes2, count_unique2)\<close>.
\<close>

type_synonym result_row = "string \<times> string \<times> nat \<times> string \<times> nat \<times> bool"
type_synonym detail_row = "string \<times> string list \<times> nat \<times> string list \<times> nat"

record compare_state =
  results :: "result_row list"
  detailed_mismatches :: "detail_row list"
  matched_count :: nat
  mismatched_count :: nat

definition init_compare_state :: compare_state where
  "init_compare_state =
     \<lparr>results = [], detailed_mismatches = [], matched_count = 0, mismatched_count = 0\<rparr>"

text \<open>Python's \<^verbatim>\<open>x in xs\<close> on a list: a scan with \<^verbatim>\<open>==\<close>.\<close>

primrec contains :: "'a list \<Rightarrow> 'a \<Rightarrow> bool" where
  "contains [] x = False"
| "contains (y # ys) x = (x = y \<or> contains ys x)"

text \<open>\<^verbatim>\<open>[node for node in nodes1 if node not in nodes2]\<close>\<close>

primrec unique_nodes :: "string list \<Rightarrow> string list \<Rightarrow> string list" where
  "unique_nodes [] nodes2 = []"
| "unique_nodes (node # rest) nodes2 =
     (if \<not> contains nodes2 node then node # unique_nodes rest nodes2
      else unique_nodes rest nodes2)"

text \<open>\<^verbatim>\<open>net_codes.get(net_name, 'N/A')\<close> and \<^verbatim>\<open>netlist.get(net_name, {'nodes': []})['nodes']\<close>\<close>

definition get_code :: "codes \<Rightarrow> string \<Rightarrow> string" where
  "get_code cs name = (case map_of cs name of None \<Rightarrow> ''N/A'' | Some c \<Rightarrow> c)"

definition get_nodes :: "netlist \<Rightarrow> string \<Rightarrow> string list" where
  "get_nodes nl name = (case map_of nl name of None \<Rightarrow> [] | Some e \<Rightarrow> nodes e)"

text \<open>The body of \<^verbatim>\<open>for net_name in all_nets\<close>.\<close>

definition compare_net ::
  "netlist \<Rightarrow> codes \<Rightarrow> netlist \<Rightarrow> codes \<Rightarrow> compare_state \<Rightarrow> string \<Rightarrow> compare_state" where
  "compare_net netlist1 net_codes1 netlist2 net_codes2 st name =
     (let net_code1 = get_code net_codes1 name;
          net_code2 = get_code net_codes2 name;
          nodes1 = get_nodes netlist1 name;
          nodes2 = get_nodes netlist2 name;
          count1 = length nodes1;
          count2 = length nodes2;
          unique_nodes1 = unique_nodes nodes1 nodes2;
          unique_nodes2 = unique_nodes nodes2 nodes1;
          count_unique1 = length unique_nodes1;
          count_unique2 = length unique_nodes2;
          is_mismatch = (count_unique1 \<noteq> count_unique2);
          st1 = st\<lparr>results :=
                  results st @ [(name, net_code1, count1, net_code2, count2, is_mismatch)]\<rparr>
      in if is_mismatch then
           st1\<lparr>detailed_mismatches :=
                 detailed_mismatches st1 @
                   [(name, unique_nodes1, count_unique1, unique_nodes2, count_unique2)],
               mismatched_count := mismatched_count st1 + 1\<rparr>
         else st1\<lparr>matched_count := matched_count st1 + 1\<rparr>)"

definition compare_loop ::
  "netlist \<Rightarrow> codes \<Rightarrow> netlist \<Rightarrow> codes \<Rightarrow> string list \<Rightarrow> compare_state" where
  "compare_loop netlist1 net_codes1 netlist2 net_codes2 ns =
     foldl (compare_net netlist1 net_codes1 netlist2 net_codes2) init_compare_state ns"

text \<open>
  \<^verbatim>\<open>all_nets = set(netlist1.keys()).union(netlist2.keys())\<close>. The loop iterates over a set,
  in an order Python does not specify: the order is a parameter \<open>iter\<close>, a function that
  rearranges the keys; \<open>set_iteration iter\<close> says that it yields every element once.
\<close>

definition set_iteration :: "(string list \<Rightarrow> string list) \<Rightarrow> bool" where
  "set_iteration iter = (\<forall>xs. distinct xs \<longrightarrow> distinct (iter xs) \<and> set (iter xs) = set xs)"

definition all_nets :: "(string list \<Rightarrow> string list) \<Rightarrow> netlist \<Rightarrow> netlist \<Rightarrow> string list" where
  "all_nets iter netlist1 netlist2 = iter (remdups (map fst netlist1 @ map fst netlist2))"

text \<open>
  \<^verbatim>\<open>results.sort(key=lambda x: (not x[5], x[1]))\<close>: a stable sort on the pair of a Boolean
  (\<^verbatim>\<open>False < True\<close>) and a string (compared character by character, a proper prefix
  first), which is the lexicographic order of \<^typ>\<open>bool \<times> string\<close>.
\<close>

definition sort_key_of :: "result_row \<Rightarrow> bool \<times> string" where
  "sort_key_of x = (case x of (name, net_code1, count1, net_code2, count2, is_mismatch) \<Rightarrow>
     (\<not> is_mismatch, net_code1))"

definition sort_results :: "result_row list \<Rightarrow> result_row list" where
  "sort_results rs = sort_key sort_key_of rs"

text \<open>
  The part of \<^verbatim>\<open>compare_netlists\<close> after the two parses: the loop, then the sort of
  \<open>results\<close>. Its value is what is handed to \<^verbatim>\<open>generate_html_report\<close>.
\<close>

definition compare_parsed ::
  "(string list \<Rightarrow> string list) \<Rightarrow> netlist \<Rightarrow> codes \<Rightarrow> netlist \<Rightarrow> codes \<Rightarrow> compare_state"
  where
  "compare_parsed iter netlist1 net_codes1 netlist2 net_codes2 =
     (let st = compare_loop netlist1 net_codes1 netlist2 net_codes2
                 (all_nets iter netlist1 netlist2)
      in st\<lparr>results := sort_results (results st)\<rparr>)"

subsection \<open>categorize_nodes\<close>

record categories =
  Capacitors :: nat
  Resistors :: nat
  Others :: nat

definition categorize_node :: "categories \<Rightarrow> string \<Rightarrow> categories" where
  "categorize_node cats node =
     (case search_ref node of
        None \<Rightarrow> cats
      | Some r \<Rightarrow>
          if startswith r ''C'' then cats\<lparr>Capacitors := Capacitors cats + 1\<rparr>
          else if startswith r ''R'' then cats\<lparr>Resistors := Resistors cats + 1\<rparr>
          else cats\<lparr>Others := Others cats + 1\<rparr>)"

definition categorize_nodes :: "string list \<Rightarrow> categories" where
  "categorize_nodes ns =
     foldl categorize_node \<lparr>Capacitors = 0, Resistors = 0, Others = 0\<rparr> ns"

subsection \<open>generate_html_report\<close>

text \<open>\<^verbatim>\<open>str(n)\<close> for a non-negative integer.\<close>

fun str_nat :: "nat \<Rightarrow> string" where
  "str_nat n =
     (if n < 10 then [''0123456789'' ! n]
      else str_nat (n div 10) @ [''0123456789'' ! (n mod 10)])"

declare str_nat.simps [simp del]

text \<open>
  \<^verbatim>\<open>s.replace(old, new)\<close>: every non-overlapping occurrence of \<open>old\<close>, from the left, is
  replaced; with an empty \<open>old\<close>, \<open>new\<close> is put before every character and at the end.
\<close>

function str_replace :: "string \<Rightarrow> string \<Rightarrow> string \<Rightarrow> string" where
  "str_replace s old new =
     (if old = [] then new @ concat (map (\<lambda>c. c # new) s)
      else if prefix old s then new @ str_replace (drop (length old) s) old new
      else case s of [] \<Rightarrow> [] | c # cs \<Rightarrow> c # str_replace cs old new)"
  by pat_completeness auto
termination
  by (relation "measure (\<lambda>(s, old, new). length s)") (auto simp: prefix_def)

declare str_replace.simps [simp del]

text \<open>One line of an f-string block: indentation, text, newline.\<close>

definition html_line :: "nat \<Rightarrow> string \<Rightarrow> string" where
  "html_line n t = replicate n CHR '' '' @ t @ [CHR 0x0A]"

definition render_row :: "nat \<Rightarrow> result_row \<Rightarrow> string" where
  \<open>render_row i x =
     (case x of (name, net_code1, count1, net_code2, count2, is_mismatch) \<Rightarrow>
        let row_class = (if is_mismatch then ''mismatch-row'' else ''match-row'') in
        [CHR 0x0A]
        @ html_line 12 (''<tr class="'' @ row_class @ ''">'')
        @ html_line 16 (''<td>'' @ str_nat i @ ''</td>'')
        @ html_line 16 (''<td>'' @ name @ ''</td>'')
        @ html_line 16 (''<td>'' @ net_code1 @ ''</td>'')
        @ html_line 16 (''<td>'' @ str_nat count1 @ ''</td>'')
        @ html_line 16 (''<td>'' @ net_code2 @ ''</td>'')
        @ html_line 16 (''<td>'' @ str_nat count2 @ ''</td>'')
        @ html_line 12 ''</tr>''
        @ replicate 8 CHR '' '')\<close>

definition render_side :: "string list \<Rightarrow> nat \<Rightarrow> string" where
  \<open>render_side unique count =
     (let cats = categorize_nodes unique in
        html_line 16 ''<td>''
        @ html_line 20 (''<p>Total Nodes: '' @ str_nat count @ ''</p>'')
        @ html_line 20 (''<p>Total Capacitors: '' @ str_nat (Capacitors cats) @ ''</p>'')
        @ html_line 20 (''<p>Total Resistors: '' @ str_nat (Resistors cats) @ ''</p>'')
        @ html_line 20 (''<p>Total Others: '' @ str_nat (Others cats) @ ''</p>'')
        @ html_line 20 ''<ul>''
        @ html_line 24 (concat (map (\<lambda>node. ''<li>'' @ node @ ''</li>'') unique))
        @ html_line 20 ''</ul>''
        @ html_line 16 ''</td>'')\<close>

definition render_detail :: "nat \<Rightarrow> detail_row \<Rightarrow> string" where
  \<open>render_detail i x =
     (case x of (name, unique_nodes1, count1, unique_nodes2, count2) \<Rightarrow>
        [CHR 0x0A]
        @ html_line 12 ''<tr>''
        @ html_line 16 (''<td>'' @ str_nat i @ ''</td>'')
        @ html_line 16 (''<td>'' @ name @ ''</td>'')
        @ render_side unique_nodes1 count1
        @ render_side unique_nodes2 count2
        @ html_line 12 ''</tr>''
        @ replicate 8 CHR '' '')\<close>

text \<open>\<^verbatim>\<open>enumerate(xs, start=1)\<close> and the \<^verbatim>\<open>+=\<close> loops.\<close>

definition enumerate1 :: "'a list \<Rightarrow> (nat \<times> 'a) list" where
  "enumerate1 xs = zip [1 ..< Suc (length xs)] xs"

definition render_rows :: "result_row list \<Rightarrow> string" where
  "render_rows rs = concat (map (\<lambda>(i, x). render_row i x) (enumerate1 rs))"

definition render_detailed_rows :: "detail_row list \<Rightarrow> string" where
  "render_detailed_rows ds = concat (map (\<lambda>(i, x). render_detail i x) (enumerate1 ds))"

definition render_footer :: "nat \<Rightarrow> nat \<Rightarrow> string" where
  \<open>render_footer matched mismatched =
     [CHR 0x0A]
     @ html_line 8 ''<tr>''
     @ html_line 12 ''<td colspan="6">''
     @ html_line 16 (''<p><strong>Matched Net Codes: '' @ str_nat matched @ ''</strong></p>'')
     @ html_line 16
         (''<p><strong>Mismatched Net Codes: '' @ str_nat mismatched @ ''</strong></p>'')
     @ html_line 12 ''</td>''
     @ html_line 8 ''</tr>''
     @ replicate 4 CHR '' ''\<close>

definition ph_rows :: string where
  "ph_rows = ''{{ rows }}''"

definition ph_detailed_rows :: string where
  "ph_detailed_rows = ''{{ detailed_rows }}''"

definition ph_footer_info :: string where
  "ph_footer_info = ''{{ footer_info }}''"

text \<open>The three chained \<^verbatim>\<open>replace\<close> calls on the template text.\<close>

definition fill_template :: "string \<Rightarrow> string \<Rightarrow> string \<Rightarrow> string \<Rightarrow> string" where
  "fill_template template rows detailed_rows footer_info =
     str_replace
       (str_replace (str_replace template ph_rows rows) ph_detailed_rows detailed_rows)
       ph_footer_info footer_info"

text \<open>
  \<open>template\<close> is what opening and reading \<^verbatim>\<open>template.html\<close> gives. The exception of a
  missing template is not handled: it is the result. Otherwise the result is the text
  written to \<^verbatim>\<open>comparison_report.html\<close> and the line printed.
\<close>

definition generate_html_report ::
  "py_exception + string \<Rightarrow> result_row list \<Rightarrow> detail_row list \<Rightarrow> nat \<Rightarrow> nat
     \<Rightarrow> py_exception + string \<times> string list" where
  "generate_html_report template_file rs ds matched mismatched =
     (case template_file of
        Inl e \<Rightarrow> Inl e
      | Inr template \<Rightarrow>
          Inr (fill_template template (render_rows rs) (render_detailed_rows ds)
                 (render_footer matched mismatched),
               [''HTML report generated as '' @ [CHR 0x27] @ ''comparison_report.html''
                  @ [CHR 0x27]]))"

subsection \<open>compare_netlists and the entry point\<close>

text \<open>
  What a run leaves behind: the lines printed to standard output, the files opened for
  reading (in order), the report written (if any) and the exit status. An exception that
  nothing handles ends the run with status 1.
\<close>

record outcome =
  stdout :: "string list"
  opened :: "string list"
  report_file :: "string option"
  exit_status :: nat

definition compare_netlists ::
  "filesystem \<Rightarrow> (string list \<Rightarrow> string list) \<Rightarrow> py_exception + string \<Rightarrow> string \<Rightarrow> string
     \<Rightarrow> outcome" where
  "compare_netlists fs iter template_file file1 file2 =
     (case parse_netlist fs file1 of ((netlist1, net_codes1), out1) \<Rightarrow>
      case parse_netlist fs file2 of ((netlist2, net_codes2), out2) \<Rightarrow>
        let st = compare_parsed iter netlist1 net_codes1 netlist2 net_codes2 in
        case generate_html_report template_file (results st) (detailed_mismatches st)
               (matched_count st) (mismatched_count st) of
          Inl e \<Rightarrow>
            \<lparr>stdout = out1 @ out2, opened = [file1, file2, ''template.html''],
             report_file = None, exit_status = 1\<rparr>
        | Inr (html, out3) \<Rightarrow>
            \<lparr>stdout = out1 @ out2 @ out3, opened = [file1, file2, ''template.html''],
             report_file = Some html, exit_status = 0\<rparr>)"

definition usage :: string where
  "usage = ''Usage: python compare.py <file1.net> <file2.net>''"

text \<open>\<open>argv\<close> is \<^verbatim>\<open>sys.argv\<close>: the script name followed by the arguments.\<close>

definition main ::
  "filesystem \<Rightarrow> (string list \<Rightarrow> string list) \<Rightarrow> py_exception + string \<Rightarrow> string list
     \<Rightarrow> outcome" where
  "main fs iter template_file argv =
     (if length argv \<noteq> 3 then
        \<lparr>stdout = [usage], opened = [], report_file = None, exit_status = 1\<rparr>
      else compare_netlists fs iter template_file (argv ! 1) (argv ! 2))"

subsection \<open>Notation for the statements\<close>

text \<open>What the loop body computes for one net name, as abbreviations.\<close>

abbreviation mismatch_of :: "netlist \<Rightarrow> netlist \<Rightarrow> string \<Rightarrow> bool" where
  "mismatch_of n1 n2 name \<equiv>
     length (unique_nodes (get_nodes n1 name) (get_nodes n2 name))
       \<noteq> length (unique_nodes (get_nodes n2 name) (get_nodes n1 name))"

abbreviation row_of :: "netlist \<Rightarrow> codes \<Rightarrow> netlist \<Rightarrow> codes \<Rightarrow> string \<Rightarrow> result_row" where
  "row_of n1 c1 n2 c2 name \<equiv>
     (name, get_code c1 name, length (get_nodes n1 name), get_code c2 name,
      length (get_nodes n2 name), mismatch_of n1 n2 name)"

abbreviation detail_of :: "netlist \<Rightarrow> netlist \<Rightarrow> string \<Rightarrow> detail_row" where
  "detail_of n1 n2 name \<equiv>
     (name, unique_nodes (get_nodes n1 name) (get_nodes n2 name),
      length (unique_nodes (get_nodes n1 name) (get_nodes n2 name)),
      unique_nodes (get_nodes n2 name) (get_nodes n1 name),
      length (unique_nodes (get_nodes n2 name) (get_nodes n1 name)))"

text \<open>
  The invariant of the parsing loop: the two dictionaries have the same keys and agree on
  the net code, and the current net, when there is one, is a key.
\<close>

abbreviation parse_inv :: "parse_state \<Rightarrow> bool" where
  "parse_inv st \<equiv>
     (\<forall>n. map_of (net_codes st) n = map_option code (map_of (connections st) n))
     \<and> (\<forall>n. net_name st = Some n \<longrightarrow> map_of (connections st) n \<noteq> None)"

text \<open>The formatted node a line contributes, if it matches the node pattern.\<close>

abbreviation node_of_line :: "string \<Rightarrow> string option" where
  "node_of_line l \<equiv> map_option (\<lambda>(r, p). format_node r p) (match_node (strip l))"

text \<open>The section flag after reading the lines \<open>ls\<close> from the start of a file.\<close>

abbreviation inside :: "string list \<Rightarrow> bool" where
  "inside ls \<equiv> in_nets_section (snd (parse_lines init_parse_state ls))"

text \<open>Every stored node has the form the f-string gives it, with a reference without newline.\<close>

abbreviation nodes_formatted :: "parse_state \<Rightarrow> bool" where
  "nodes_formatted st \<equiv>
     (\<forall>n e. map_of (connections st) n = Some e \<longrightarrow>
        (\<forall>x \<in> set (nodes e). \<exists>r p. x = format_node r p \<and> CHR 0x0A \<notin> set r))"

text \<open>\<^verbatim>\<open>sep.join(ps)\<close> for a non-empty list of pieces.\<close>

abbreviation joined :: "string \<Rightarrow> string list \<Rightarrow> string" where
  "joined sep ps \<equiv> concat (map (\<lambda>p. p @ sep) (butlast ps)) @ last ps"

section \<open>Properties\<close>

subsection \<open>The comparison\<close>

lemma contains_iff: "contains xs x \<longleftrightarrow> x \<in> set xs"
  by (induction xs) auto

lemma unique_nodes_filter: "unique_nodes a b = filter (\<lambda>x. x \<notin> set b) a"
  by (induction a) (simp_all add: contains_iff)

lemma foldl_compare_net:
  "foldl (compare_net n1 c1 n2 c2) st ns =
     st\<lparr>results := results st @ map (row_of n1 c1 n2 c2) ns,
        detailed_mismatches :=
          detailed_mismatches st @ map (detail_of n1 n2) (filter (mismatch_of n1 n2) ns),
        matched_count := matched_count st + length (filter (\<lambda>x. \<not> mismatch_of n1 n2 x) ns),
        mismatched_count := mismatched_count st + length (filter (mismatch_of n1 n2) ns)\<rparr>"
proof (induction ns arbitrary: st)
  case Nil
  show ?case by simp
next
  case (Cons a ns)
  show ?case
    unfolding foldl_Cons Cons.IH by (simp add: compare_net_def Let_def)
qed

lemma compare_loop_eq:
  "compare_loop n1 c1 n2 c2 ns =
     \<lparr>results = map (row_of n1 c1 n2 c2) ns,
      detailed_mismatches = map (detail_of n1 n2) (filter (mismatch_of n1 n2) ns),
      matched_count = length (filter (\<lambda>x. \<not> mismatch_of n1 n2 x) ns),
      mismatched_count = length (filter (mismatch_of n1 n2) ns)\<rparr>"
  by (simp add: compare_loop_def foldl_compare_net init_compare_state_def)

lemma all_nets_props:
  assumes "set_iteration iter"
  shows "distinct (all_nets iter n1 n2)"
    and "set (all_nets iter n1 n2) = fst ` set n1 \<union> fst ` set n2"
  using assms by (auto simp: set_iteration_def all_nets_def)

lemma compare_parsed_eq:
  "compare_parsed iter n1 c1 n2 c2 =
     \<lparr>results = sort_results (map (row_of n1 c1 n2 c2) (all_nets iter n1 n2)),
      detailed_mismatches =
        map (detail_of n1 n2) (filter (mismatch_of n1 n2) (all_nets iter n1 n2)),
      matched_count = length (filter (\<lambda>x. \<not> mismatch_of n1 n2 x) (all_nets iter n1 n2)),
      mismatched_count = length (filter (mismatch_of n1 n2) (all_nets iter n1 n2))\<rparr>"
  by (simp add: compare_parsed_def compare_loop_eq Let_def)

lemma set_sort_results: "set (sort_results rs) = set rs"
  by (simp add: sort_results_def)

lemma length_sort_results: "length (sort_results rs) = length rs"
  by (simp add: sort_results_def)


lemma results_set:
  assumes "set_iteration iter"
  shows "set (results (compare_parsed iter n1 c1 n2 c2)) =
           row_of n1 c1 n2 c2 ` (fst ` set n1 \<union> fst ` set n2)"
  using all_nets_props(2)[OF assms, of n1 n2]
  by (simp add: compare_parsed_eq set_sort_results)

text \<open>
  C1. For every net name in the union of the two parsed netlists there is exactly one
  result, and its flag is set if and only if the number of nodes of side 1 that do not
  occur on side 2 differs from the number of nodes of side 2 that do not occur on side 1.
  In particular, two disjoint node lists of equal length give a matched net.
\<close>
theorem mismatch_iff_unique_counts_differ:
  assumes "set_iteration iter"
    and "name \<in> fst ` set netlist1 \<union> fst ` set netlist2"
    and "st = compare_parsed iter netlist1 net_codes1 netlist2 net_codes2"
    and "nodes1 = get_nodes netlist1 name"
    and "nodes2 = get_nodes netlist2 name"
  shows "(\<exists>!x. x \<in> set (results st) \<and> fst x = name)
    \<and> (\<forall>c1 k1 c2 k2 m. (name, c1, k1, c2, k2, m) \<in> set (results st) \<longrightarrow>
          (m \<longleftrightarrow> length [x \<leftarrow> nodes1. x \<notin> set nodes2] \<noteq> length [x \<leftarrow> nodes2. x \<notin> set nodes1]))
    \<and> (set nodes1 \<inter> set nodes2 = {} \<and> length nodes1 = length nodes2 \<longrightarrow>
          (\<forall>c1 k1 c2 k2 m. (name, c1, k1, c2, k2, m) \<in> set (results st) \<longrightarrow> \<not> m))"
proof -
  have rs: "set (results st) = row_of netlist1 net_codes1 netlist2 net_codes2
              ` (fst ` set netlist1 \<union> fst ` set netlist2)"
    using assms(1,3) by (simp add: results_set)
  have one: "\<exists>!x. x \<in> set (results st) \<and> fst x = name"
  proof (rule ex1I)
    show "row_of netlist1 net_codes1 netlist2 net_codes2 name \<in> set (results st)
            \<and> fst (row_of netlist1 net_codes1 netlist2 net_codes2 name) = name"
      using assms(2) rs by simp
  next
    fix x assume "x \<in> set (results st) \<and> fst x = name"
    then show "x = row_of netlist1 net_codes1 netlist2 net_codes2 name"
      using rs by auto
  qed
  have flag: "(m \<longleftrightarrow> length [x \<leftarrow> nodes1. x \<notin> set nodes2] \<noteq> length [x \<leftarrow> nodes2. x \<notin> set nodes1])"
    if "(name, c1, k1, c2, k2, m) \<in> set (results st)" for c1 k1 c2 k2 m
    using that rs assms(4,5) by (auto simp: unique_nodes_filter)
  have disj: "length [x \<leftarrow> nodes1. x \<notin> set nodes2] = length [x \<leftarrow> nodes2. x \<notin> set nodes1]"
    if "set nodes1 \<inter> set nodes2 = {}" "length nodes1 = length nodes2"
  proof -
    have "[x \<leftarrow> nodes1. x \<notin> set nodes2] = nodes1" "[x \<leftarrow> nodes2. x \<notin> set nodes1] = nodes2"
      using that(1) by (auto simp: filter_id_conv)
    then show ?thesis using that(2) by simp
  qed
  show ?thesis
    using one flag disj by blast
qed


theorem mismatch_iff_unique_counts_differ_witness:
  "set_iteration (\<lambda>xs. xs)
   \<and> (\<exists>c1 k1 c2 k2. (''GND'', c1, k1, c2, k2, False) \<in> set (results (compare_parsed (\<lambda>xs. xs)
          [(''GND'', \<lparr>code = ''1'', nodes = [''a'', ''b'']\<rparr>)] [(''GND'', ''1'')]
          [(''GND'', \<lparr>code = ''7'', nodes = [''c'', ''d'']\<rparr>)] [(''GND'', ''7'')])))"
proof -
  have h1: "set_iteration (\<lambda>xs. xs)"
    by (simp add: set_iteration_def)
  have h2: "''GND'' \<in> fst ` set [(''GND'', \<lparr>code = ''1'', nodes = [''a'', ''b'']\<rparr>)]
               \<union> fst ` set [(''GND'', \<lparr>code = ''7'', nodes = [''c'', ''d'']\<rparr>)]"
    by simp
  have h3: "set (get_nodes [(''GND'', \<lparr>code = ''1'', nodes = [''a'', ''b'']\<rparr>)] ''GND'')
              \<inter> set (get_nodes [(''GND'', \<lparr>code = ''7'', nodes = [''c'', ''d'']\<rparr>)] ''GND'') = {}
            \<and> length (get_nodes [(''GND'', \<lparr>code = ''1'', nodes = [''a'', ''b'']\<rparr>)] ''GND'')
              = length (get_nodes [(''GND'', \<lparr>code = ''7'', nodes = [''c'', ''d'']\<rparr>)] ''GND'')"
    by (simp add: get_nodes_def)
  note t = mismatch_iff_unique_counts_differ [OF h1 h2 refl refl refl,
        of "[(''GND'', ''1'')]" "[(''GND'', ''7'')]"]
  from t obtain x where x: "x \<in> set (results (compare_parsed (\<lambda>xs. xs)
          [(''GND'', \<lparr>code = ''1'', nodes = [''a'', ''b'']\<rparr>)] [(''GND'', ''1'')]
          [(''GND'', \<lparr>code = ''7'', nodes = [''c'', ''d'']\<rparr>)] [(''GND'', ''7'')]))"
    and n: "fst x = ''GND''"
    by blast
  obtain n c1 k1 c2 k2 m where xe: "x = (n, c1, k1, c2, k2, m)"
    by (cases x)
  from t h3 have "\<forall>c1 k1 c2 k2 m. (''GND'', c1, k1, c2, k2, m) \<in> set (results (compare_parsed (\<lambda>xs. xs)
          [(''GND'', \<lparr>code = ''1'', nodes = [''a'', ''b'']\<rparr>)] [(''GND'', ''1'')]
          [(''GND'', \<lparr>code = ''7'', nodes = [''c'', ''d'']\<rparr>)] [(''GND'', ''7'')])) \<longrightarrow> \<not> m"
    by (elim conjE) (erule mp, simp)
  note q = this [rule_format]
  have mem: "(''GND'', c1, k1, c2, k2, m) \<in> set (results (compare_parsed (\<lambda>xs. xs)
          [(''GND'', \<lparr>code = ''1'', nodes = [''a'', ''b'']\<rparr>)] [(''GND'', ''1'')]
          [(''GND'', \<lparr>code = ''7'', nodes = [''c'', ''d'']\<rparr>)] [(''GND'', ''7'')]))"
    using x n xe by simp
  have "\<not> m"
    by (rule q [OF mem])
  then show ?thesis
    using h1 mem by auto
qed

text \<open>
  C2. The nodes unique to a side are that side's nodes, in order, that occur nowhere in
  the other side's list. The test is containment: a node that occurs on the other side is
  dropped with all its duplicates, a node that does not keeps all of them. The detailed
  entries carry exactly these lists and their lengths.
\<close>
theorem unique_nodes_by_containment:
  "unique_nodes a b = [x \<leftarrow> a. x \<notin> set b]
   \<and> (\<forall>x \<in> set b. count_list (unique_nodes a b) x = 0)
   \<and> (\<forall>x. x \<notin> set b \<longrightarrow> count_list (unique_nodes a b) x = count_list a x)
   \<and> (\<forall>name u1 k1 u2 k2.
        (name, u1, k1, u2, k2)
          \<in> set (detailed_mismatches (compare_parsed iter netlist1 net_codes1 netlist2 net_codes2)) \<longrightarrow>
        u1 = [x \<leftarrow> get_nodes netlist1 name. x \<notin> set (get_nodes netlist2 name)]
        \<and> u2 = [x \<leftarrow> get_nodes netlist2 name. x \<notin> set (get_nodes netlist1 name)]
        \<and> k1 = length u1 \<and> k2 = length u2)"
proof -
  have c0: "count_list [x \<leftarrow> a. x \<notin> set b] x = 0" if "x \<in> set b" for x
    using that by (induction a) auto
  have c1: "count_list [x \<leftarrow> a. x \<notin> set b] x = count_list a x" if "x \<notin> set b" for x
    using that by (induction a) auto
  show ?thesis
    by (auto simp: unique_nodes_filter c0 c1 compare_parsed_eq)
qed

theorem unique_nodes_by_containment_witness:
  "unique_nodes [''p'', ''q'', ''p''] [''p''] = [''q'']
   \<and> count_list (unique_nodes [''p'', ''q'', ''p''] [''p'']) ''p'' = 0
   \<and> count_list (unique_nodes [''p'', ''q'', ''p''] [''p'']) ''q'' = 1"
  using unique_nodes_by_containment [of "[''p'', ''q'', ''p'']" "[''p'']" "\<lambda>xs. xs" "[]" "[]" "[]" "[]"]
  by simp

lemma sorted_sort_results: "sorted (map sort_key_of (sort_results rs))"
  by (simp add: sort_results_def)

text \<open>
  C4. In the sorted results no matched net comes before a mismatched one, and two entries
  with the same flag are in non-decreasing order of the first file's net code, compared as
  strings (so ``N/A'' is ordered like any other string, and ``10'' comes before ``9'').
\<close>
theorem results_sorted_mismatches_first:
  assumes "rs = results (compare_parsed iter netlist1 net_codes1 netlist2 net_codes2)"
    and "i < j" and "j < length rs"
    and "rs ! i = (name_i, code_i, count1_i, code2_i, count2_i, mismatch_i)"
    and "rs ! j = (name_j, code_j, count1_j, code2_j, count2_j, mismatch_j)"
  shows "(mismatch_j \<longrightarrow> mismatch_i) \<and> (mismatch_i = mismatch_j \<longrightarrow> code_i \<le> code_j)"
proof -
  have "sorted (map sort_key_of rs)"
    using assms(1) by (simp add: compare_parsed_eq sorted_sort_results)
  then have "map sort_key_of rs ! i \<le> map sort_key_of rs ! j"
    using assms(2,3) by (simp add: sorted_iff_nth_mono)
  then have "(\<not> mismatch_i, code_i) \<le> (\<not> mismatch_j, code_j)"
    using assms(2-5) by (simp add: sort_key_of_def)
  then show ?thesis
    by (cases mismatch_i; cases mismatch_j) auto
qed


theorem results_sorted_mismatches_first_witness:
  "results (compare_parsed (\<lambda>xs. xs)
      [(''A'', \<lparr>code = ''1'', nodes = [''x'']\<rparr>), (''C'', \<lparr>code = ''9'', nodes = [''y'']\<rparr>),
       (''B'', \<lparr>code = ''10'', nodes = [''z'']\<rparr>)]
      [(''A'', ''1''), (''C'', ''9''), (''B'', ''10'')]
      [(''A'', \<lparr>code = ''1'', nodes = [''x'']\<rparr>)] [(''A'', ''1'')])
     = [(''B'', ''10'', 1, ''N/A'', 0, True), (''C'', ''9'', 1, ''N/A'', 0, True),
        (''A'', ''1'', 1, ''1'', 1, False)]
   \<and> (''10'' :: string) \<le> ''9''"
proof -
  let ?rs = "results (compare_parsed (\<lambda>xs. xs)
      [(''A'', \<lparr>code = ''1'', nodes = [''x'']\<rparr>), (''C'', \<lparr>code = ''9'', nodes = [''y'']\<rparr>),
       (''B'', \<lparr>code = ''10'', nodes = [''z'']\<rparr>)]
      [(''A'', ''1''), (''C'', ''9''), (''B'', ''10'')]
      [(''A'', \<lparr>code = ''1'', nodes = [''x'']\<rparr>)] [(''A'', ''1'')])"
  have e: "?rs = [(''B'', ''10'', 1, ''N/A'', 0, True), (''C'', ''9'', 1, ''N/A'', 0, True),
        (''A'', ''1'', 1, ''1'', 1, False)]"
    by (simp add: compare_parsed_def compare_loop_def compare_net_def all_nets_def
          init_compare_state_def get_code_def get_nodes_def sort_results_def sort_key_of_def
          Let_def)
  have i: "?rs ! 0 = (''B'', ''10'', 1, ''N/A'', 0, True)"
    and j: "?rs ! 1 = (''C'', ''9'', 1, ''N/A'', 0, True)"
    and l: "1 < length ?rs"
    by (simp_all add: e)
  have "(True \<longrightarrow> True) \<and> (True = True \<longrightarrow> (''10'' :: string) \<le> ''9'')"
    by (rule results_sorted_mismatches_first [OF refl _ l i j]) simp
  then show ?thesis
    using e by blast
qed

text \<open>
  C10. The two counters add up to the number of distinct net names of the two netlists,
  which is the length of the results; every name has one result; the mismatched counter
  counts the flagged results and the matched counter the others; the detailed entries are
  as many as the mismatched counter says and name exactly the flagged nets.
\<close>
theorem counts_partition_the_nets:
  assumes "set_iteration iter"
    and "st = compare_parsed iter netlist1 net_codes1 netlist2 net_codes2"
  shows "matched_count st + mismatched_count st = card (fst ` set netlist1 \<union> fst ` set netlist2)
    \<and> length (results st) = card (fst ` set netlist1 \<union> fst ` set netlist2)
    \<and> length (detailed_mismatches st) = mismatched_count st
    \<and> distinct (map fst (results st))
    \<and> set (map fst (results st)) = fst ` set netlist1 \<union> fst ` set netlist2
    \<and> mismatched_count st = length [x \<leftarrow> results st. snd (snd (snd (snd (snd x))))]
    \<and> matched_count st = length [x \<leftarrow> results st. \<not> snd (snd (snd (snd (snd x))))]
    \<and> distinct (map fst (detailed_mismatches st))
    \<and> set (map fst (detailed_mismatches st))
        = fst ` {x \<in> set (results st). snd (snd (snd (snd (snd x))))}"
proof -
  let ?ns = "all_nets iter netlist1 netlist2"
  let ?row = "row_of netlist1 net_codes1 netlist2 net_codes2"
  let ?M = "mismatch_of netlist1 netlist2"
  have d: "distinct ?ns" and s: "set ?ns = fst ` set netlist1 \<union> fst ` set netlist2"
    using all_nets_props [OF assms(1)] by simp_all
  have card: "card (fst ` set netlist1 \<union> fst ` set netlist2) = length ?ns"
    using d s distinct_card by metis
  have st: "st = \<lparr>results = sort_results (map ?row ?ns),
      detailed_mismatches = map (detail_of netlist1 netlist2) (filter ?M ?ns),
      matched_count = length (filter (\<lambda>x. \<not> ?M x) ?ns),
      mismatched_count = length (filter ?M ?ns)\<rparr>"
    using assms(2) by (simp add: compare_parsed_eq)
  have p1: "matched_count st + mismatched_count st = length ?ns"
    using sum_length_filter_compl [of ?M ?ns] by (simp add: st)
  have p2: "length (results st) = length ?ns"
    by (simp add: st length_sort_results)
  have p3: "length (detailed_mismatches st) = mismatched_count st"
    by (simp add: st)
  have fst_row: "map fst (map ?row ?ns) = ?ns"
    by (simp add: comp_def)
  have p4: "distinct (map fst (results st))"
  proof -
    have "distinct (map ?row ?ns)"
      using d by (simp add: distinct_map inj_on_def)
    then have "distinct (results st)"
      by (simp add: st sort_results_def)
    moreover have "inj_on fst (set (results st))"
      by (auto simp: st set_sort_results inj_on_def)
    ultimately show ?thesis
      by (simp add: distinct_map)
  qed
  have p5: "set (map fst (results st)) = fst ` set netlist1 \<union> fst ` set netlist2"
    using s by (simp add: st set_sort_results image_image)
  have flt: "[x \<leftarrow> results st. P (snd (snd (snd (snd (snd x)))))]
      = sort_results (map ?row (filter (\<lambda>n. P (?M n)) ?ns))" for P
    by (simp add: st sort_results_def filter_sort filter_map comp_def)
  have p6: "mismatched_count st = length [x \<leftarrow> results st. snd (snd (snd (snd (snd x))))]"
    using flt [of "\<lambda>b. b"] by (simp add: length_sort_results st)
  have p7: "matched_count st = length [x \<leftarrow> results st. \<not> snd (snd (snd (snd (snd x))))]"
    using flt [of "\<lambda>b. \<not> b"] by (simp add: length_sort_results st)
  have p8: "distinct (map fst (detailed_mismatches st))"
    using d by (simp add: st comp_def)
  have p9: "set (map fst (detailed_mismatches st))
        = fst ` {x \<in> set (results st). snd (snd (snd (snd (snd x))))}"
    by (auto simp: st set_sort_results image_iff)
  show ?thesis
    using p1 p2 p3 p4 p5 p6 p7 p8 p9 card by simp
qed


theorem counts_partition_the_nets_witness:
  "set_iteration rev
   \<and> matched_count (compare_parsed rev
        [(''A'', \<lparr>code = ''1'', nodes = [''x'']\<rparr>), (''B'', \<lparr>code = ''2'', nodes = [''y'']\<rparr>)]
        [(''A'', ''1''), (''B'', ''2'')]
        [(''A'', \<lparr>code = ''1'', nodes = [''x'']\<rparr>), (''D'', \<lparr>code = ''4'', nodes = []\<rparr>)]
        [(''A'', ''1''), (''D'', ''4'')])
     + mismatched_count (compare_parsed rev
        [(''A'', \<lparr>code = ''1'', nodes = [''x'']\<rparr>), (''B'', \<lparr>code = ''2'', nodes = [''y'']\<rparr>)]
        [(''A'', ''1''), (''B'', ''2'')]
        [(''A'', \<lparr>code = ''1'', nodes = [''x'']\<rparr>), (''D'', \<lparr>code = ''4'', nodes = []\<rparr>)]
        [(''A'', ''1''), (''D'', ''4'')]) = 3"
proof -
  have h: "set_iteration rev"
    by (simp add: set_iteration_def)
  have c: "card (fst ` set [(''A'', \<lparr>code = ''1'', nodes = [''x'']\<rparr>), (''B'', \<lparr>code = ''2'', nodes = [''y'']\<rparr>)]
      \<union> fst ` set [(''A'', \<lparr>code = ''1'', nodes = [''x'']\<rparr>), (''D'', \<lparr>code = ''4'', nodes = []\<rparr>)]) = 3"
    by (simp add: card_insert_if)
  show ?thesis
    using h c counts_partition_the_nets [OF h refl,
        where ?netlist1.0 = "[(''A'', \<lparr>code = ''1'', nodes = [''x'']\<rparr>), (''B'', \<lparr>code = ''2'', nodes = [''y'']\<rparr>)]"
          and ?netlist2.0 = "[(''A'', \<lparr>code = ''1'', nodes = [''x'']\<rparr>), (''D'', \<lparr>code = ''4'', nodes = []\<rparr>)]"
          and ?net_codes1.0 = "[(''A'', ''1''), (''B'', ''2'')]"
          and ?net_codes2.0 = "[(''A'', ''1''), (''D'', ''4'')]"]
    by simp
qed

text \<open>
  C9. With an argument vector of any length other than three (the script and two paths)
  the run prints the usage line, opens no file, writes no report and exits with status 1.
\<close>
theorem wrong_argument_count_prints_usage:
  assumes "length argv \<noteq> 3"
  shows "main fs iter template_file argv =
     \<lparr>stdout = [''Usage: python compare.py <file1.net> <file2.net>''], opened = [],
      report_file = None, exit_status = 1\<rparr>"
  using assms by (simp add: main_def usage_def)

theorem wrong_argument_count_prints_usage_witness:
  "length [''compare.py'', ''a.net''] \<noteq> 3
   \<and> main (\<lambda>p. Inr []) (\<lambda>xs. xs) (Inr ''{{ rows }}'') [''compare.py'', ''a.net''] =
     \<lparr>stdout = [''Usage: python compare.py <file1.net> <file2.net>''], opened = [],
      report_file = None, exit_status = 1\<rparr>"
proof -
  have h: "length [''compare.py'', ''a.net''] \<noteq> 3"
    by simp
  show ?thesis
    using h wrong_argument_count_prints_usage [OF h] by simp
qed

subsection \<open>The parser\<close>

lemma parse_inv_init: "parse_inv init_parse_state"
  by (simp add: init_parse_state_def)

lemma append_node_inv:
  assumes "parse_inv st" and "net_name st = Some n"
  shows "\<exists>st'. append_node st n nd = Inr st' \<and> parse_inv st'"
proof -
  from assms obtain e where e: "map_of (connections st) n = Some e"
    by auto
  show ?thesis
    using assms e by (simp add: append_node_def update_conv')
qed

lemma parse_line_inv:
  assumes "parse_inv st"
  shows "\<exists>st'. parse_line st l = Inr st' \<and> parse_inv st'"
proof -
  have node: "\<exists>st'. append_node st n nd = Inr st' \<and> parse_inv st'"
    if "net_name st = Some n" for n nd
    using append_node_inv [OF assms that] .
  show ?thesis
    using assms node
    by (auto simp: parse_line_def Let_def update_conv' split: option.splits)
qed

lemma parse_lines_inv:
  "parse_inv st \<Longrightarrow> \<exists>st'. parse_lines st ls = (None, st') \<and> parse_inv st'"
proof (induction ls arbitrary: st)
  case Nil
  then show ?case by simp
next
  case (Cons l ls)
  from parse_line_inv [OF Cons.prems] obtain st1
    where s: "parse_line st l = Inr st1" and i: "parse_inv st1"
    by blast
  from Cons.IH [OF i] show ?case
    by (simp add: s)
qed

lemma parse_netlist_consistent:
  assumes "parse_netlist fs p = ((nl, nc), out)"
  shows "map_of nc n = map_option code (map_of nl n)"
proof (cases "fs p")
  case (Inl e)
  then show ?thesis using assms by (auto simp: parse_netlist_def)
next
  case (Inr ls)
  from parse_lines_inv [OF parse_inv_init, of ls] obtain st
    where s: "parse_lines init_parse_state ls = (None, st)" and i: "parse_inv st"
    by blast
  then show ?thesis
    using assms Inr by (auto simp: parse_netlist_def)
qed


text \<open>
  C5. When the file is missing, \<open>parse_netlist\<close> prints the ``not found'' line and returns
  two empty dictionaries. Any other exception of opening or reading is caught, reported
  with its message, and the dictionaries are empty as well. Once the lines are read the
  loop raises nothing, so these are the only exceptions there are. The run goes on: the
  second file and the template are still opened and the exit status is 0.
\<close>
theorem parse_netlist_errors_give_empty_mappings:
  "(fs file_path = Inl FileNotFoundError \<longrightarrow>
      parse_netlist fs file_path
        = (([], []), [''Error: File '' @ file_path @ '' not found.'']))
   \<and> (\<forall>e. fs file_path = Inl e \<and> e \<noteq> FileNotFoundError \<longrightarrow>
      parse_netlist fs file_path
        = (([], []), [''Error: An unexpected error occurred while parsing '' @ file_path
                        @ '' - '' @ exception_message e]))
   \<and> (\<forall>lines. fs file_path = Inr lines \<longrightarrow>
      fst (parse_lines init_parse_state lines) = None \<and> snd (parse_netlist fs file_path) = [])
   \<and> (\<forall>e. fs file_path = Inl e \<longrightarrow>
      (\<forall>iter template other.
         opened (compare_netlists fs iter (Inr template) file_path other)
           = [file_path, other, ''template.html'']
         \<and> exit_status (compare_netlists fs iter (Inr template) file_path other) = 0))"
proof -
  have a: "parse_netlist fs file_path
        = (([], []), [''Error: File '' @ file_path @ '' not found.''])"
    if "fs file_path = Inl FileNotFoundError"
    using that by (simp add: parse_netlist_def report_exception_def)
  have b: "parse_netlist fs file_path
        = (([], []), [''Error: An unexpected error occurred while parsing '' @ file_path
                        @ '' - '' @ exception_message e])"
    if "fs file_path = Inl e" "e \<noteq> FileNotFoundError" for e
    using that by (cases e) (simp_all add: parse_netlist_def report_exception_def)
  have c: "fst (parse_lines init_parse_state lines) = None \<and> snd (parse_netlist fs file_path) = []"
    if "fs file_path = Inr lines" for lines
  proof -
    from parse_lines_inv [OF parse_inv_init, of lines] obtain st
      where "parse_lines init_parse_state lines = (None, st)"
      by blast
    then show ?thesis
      using that by (simp add: parse_netlist_def)
  qed
  have d: "opened (compare_netlists fs iter (Inr template) file_path other)
           = [file_path, other, ''template.html'']
         \<and> exit_status (compare_netlists fs iter (Inr template) file_path other) = 0"
    for iter template other
    by (simp add: compare_netlists_def generate_html_report_def Let_def split: prod.splits)
  show ?thesis
    using a b c d by blast
qed

theorem parse_netlist_errors_give_empty_mappings_witness:
  "parse_netlist (\<lambda>p. if p = ''a.net'' then Inl FileNotFoundError
                       else Inl (OtherException ''Permission denied'')) ''a.net''
     = (([], []), [''Error: File a.net not found.''])
   \<and> parse_netlist (\<lambda>p. if p = ''a.net'' then Inl FileNotFoundError
                       else Inl (OtherException ''Permission denied'')) ''b.net''
     = (([], []),
        [''Error: An unexpected error occurred while parsing b.net - Permission denied''])"
proof -
  let ?fs = "\<lambda>p. if p = ''a.net'' then Inl FileNotFoundError
                       else Inl (OtherException ''Permission denied'') :: py_exception + string list"
  have a: "?fs ''a.net'' = Inl FileNotFoundError"
    by simp
  have b: "?fs ''b.net'' = Inl (OtherException ''Permission denied'')
             \<and> OtherException ''Permission denied'' \<noteq> FileNotFoundError"
    by simp
  have 1: "parse_netlist ?fs ''a.net'' = (([], []), [''Error: File '' @ ''a.net'' @ '' not found.''])"
    using a parse_netlist_errors_give_empty_mappings [of ?fs "''a.net''"] by blast
  have 2: "parse_netlist ?fs ''b.net''
     = (([], []), [''Error: An unexpected error occurred while parsing '' @ ''b.net''
                        @ '' - '' @ exception_message (OtherException ''Permission denied'')])"
    using b parse_netlist_errors_give_empty_mappings [of ?fs "''b.net''"] by blast
  show ?thesis
    using 1 2 by (simp add: exception_message_def)
qed


lemma get_code_absent:
  assumes "parse_netlist fs p = ((nl, nc), out)" and "name \<notin> fst ` set nl"
  shows "get_code nc name = ''N/A''" and "get_nodes nl name = []"
proof -
  have "map_of nl name = None"
    using assms(2) by (simp add: map_of_eq_None_iff)
  then show "get_code nc name = ''N/A''" and "get_nodes nl name = []"
    using parse_netlist_consistent [OF assms(1), of name]
    by (simp_all add: get_code_def get_nodes_def)
qed

text \<open>
  C3. A net that only one of the two parsed files has, with \<open>N\<close> nodes, is reported with
  net code ``N/A'' and node count 0 on the absent side; the unique nodes are all \<open>N\<close> on
  the present side and none on the other; it is flagged exactly when \<open>0 < N\<close>, and then
  the detailed entry lists those nodes.
\<close>
theorem net_in_one_file_only:
  assumes "set_iteration iter"
    and "parse_netlist fs file1 = ((netlist1, net_codes1), out1)"
    and "parse_netlist fs file2 = ((netlist2, net_codes2), out2)"
    and "st = compare_parsed iter netlist1 net_codes1 netlist2 net_codes2"
  shows "(name \<in> fst ` set netlist2 \<and> name \<notin> fst ` set netlist1 \<longrightarrow>
      (let N = length (get_nodes netlist2 name) in
         (name, ''N/A'', 0, get_code net_codes2 name, N, 0 < N) \<in> set (results st)
         \<and> length (unique_nodes (get_nodes netlist1 name) (get_nodes netlist2 name)) = 0
         \<and> length (unique_nodes (get_nodes netlist2 name) (get_nodes netlist1 name)) = N
         \<and> (0 < N \<longrightarrow>
              (name, [], 0, get_nodes netlist2 name, N) \<in> set (detailed_mismatches st))))
   \<and> (name \<in> fst ` set netlist1 \<and> name \<notin> fst ` set netlist2 \<longrightarrow>
      (let N = length (get_nodes netlist1 name) in
         (name, get_code net_codes1 name, N, ''N/A'', 0, 0 < N) \<in> set (results st)
         \<and> length (unique_nodes (get_nodes netlist1 name) (get_nodes netlist2 name)) = N
         \<and> length (unique_nodes (get_nodes netlist2 name) (get_nodes netlist1 name)) = 0
         \<and> (0 < N \<longrightarrow>
              (name, get_nodes netlist1 name, N, [], 0) \<in> set (detailed_mismatches st))))"
proof -
  have ns: "set (all_nets iter netlist1 netlist2) = fst ` set netlist1 \<union> fst ` set netlist2"
    using all_nets_props(2) [OF assms(1)] .
  have rs: "set (results st) = row_of netlist1 net_codes1 netlist2 net_codes2
              ` (fst ` set netlist1 \<union> fst ` set netlist2)"
    using assms(1,4) by (simp add: results_set)
  have ds: "set (detailed_mismatches st) = detail_of netlist1 netlist2
              ` {n \<in> fst ` set netlist1 \<union> fst ` set netlist2. mismatch_of netlist1 netlist2 n}"
    using ns assms(4) by (auto simp: compare_parsed_eq)
  have u: "unique_nodes xs [] = xs" "unique_nodes [] xs = []" for xs
    by (simp_all add: unique_nodes_filter)
  have two: ?thesis if "name \<in> fst ` set netlist2" "name \<notin> fst ` set netlist1"
  proof -
    note a = get_code_absent [OF assms(2) that(2)]
    have "row_of netlist1 net_codes1 netlist2 net_codes2 name \<in> set (results st)"
      using rs that(1) by blast
    moreover have "mismatch_of netlist1 netlist2 name \<Longrightarrow>
        detail_of netlist1 netlist2 name \<in> set (detailed_mismatches st)"
      using ds that(1) by blast
    ultimately show ?thesis
      using that by (simp add: a u Let_def)
  qed
  have one: ?thesis if "name \<in> fst ` set netlist1" "name \<notin> fst ` set netlist2"
  proof -
    note a = get_code_absent [OF assms(3) that(2)]
    have "row_of netlist1 net_codes1 netlist2 net_codes2 name \<in> set (results st)"
      using rs that(1) by blast
    moreover have "mismatch_of netlist1 netlist2 name \<Longrightarrow>
        detail_of netlist1 netlist2 name \<in> set (detailed_mismatches st)"
      using ds that(1) by blast
    ultimately show ?thesis
      using that by (simp add: a u Let_def)
  qed
  show ?thesis
    using one two by blast
qed

theorem net_in_one_file_only_witness:
  \<open>(''VCC'', ''N/A'', 0, ''3'', 1, True)
     \<in> set (results (compare_parsed (\<lambda>xs. xs) [] []
          [(''VCC'', \<lparr>code = ''3'', nodes = [format_node ''R1'' ''2'']\<rparr>)] [(''VCC'', ''3'')]))
   \<and> (''VCC'', [], 0, [format_node ''R1'' ''2''], 1)
     \<in> set (detailed_mismatches (compare_parsed (\<lambda>xs. xs) [] []
          [(''VCC'', \<lparr>code = ''3'', nodes = [format_node ''R1'' ''2'']\<rparr>)] [(''VCC'', ''3'')]))\<close>
proof -
  let ?fs = \<open>\<lambda>p. if p = ''b.net''
      then Inr [''(nets\<newline>'', ''  (net (code "3") (name "VCC")\<newline>'',
                ''    (node (ref "R1") (pin "2"))\<newline>'', '')\<newline>'']
      else Inl FileNotFoundError :: py_exception + string list\<close>
  have h1: "set_iteration (\<lambda>xs. xs)"
    by (simp add: set_iteration_def)
  have h2: "parse_netlist ?fs ''a.net'' = (([], []), [''Error: File a.net not found.''])"
    by (simp add: parse_netlist_def report_exception_def)
  have h3: "parse_netlist ?fs ''b.net''
    = (([(''VCC'', \<lparr>code = ''3'', nodes = [format_node ''R1'' ''2'']\<rparr>)], [(''VCC'', ''3'')]), [])"
    by (simp add: parse_netlist_def parse_line_def init_parse_state_def strip_def isspace_def
       startswith_def match_net_def match_node_def lit_def greedy_plus_def isdigit_def
       re_end_def append_node_def Let_def)
  show ?thesis
    using net_in_one_file_only [OF h1 h2 h3 refl, of "''VCC''"]
    by (simp add: get_nodes_def get_code_def Let_def)
qed

lemma parse_lines_append:
  "parse_lines st (xs @ ys) =
     (case parse_lines st xs of
        (None, st') \<Rightarrow> parse_lines st' ys
      | (Some e, st') \<Rightarrow> (Some e, st'))"
  by (induction xs arbitrary: st) (simp_all split: sum.splits)

lemma match_net_prefix:
  assumes "match_net l = Some (c, n)"
  shows "startswith l ''(net''" and "\<not> startswith l ''(nets''"
    and "\<not> startswith l ''(components''"
proof -
  have p: \<open>prefix ''(net (code "'' l\<close>
    using assms by (simp add: match_net_def lit_def split: if_splits)
  then obtain r where \<open>l = ''(net (code "'' @ r\<close>
    by (auto simp: prefix_def)
  then show "startswith l ''(net''" and "\<not> startswith l ''(nets''"
    and "\<not> startswith l ''(components''"
    by (simp_all add: startswith_def)
qed

lemma match_node_prefix:
  assumes "match_node l = Some (r, p)"
  shows "startswith l ''(node''"
proof -
  have p: \<open>prefix ''(node (ref "'' l\<close>
    using assms by (simp add: match_node_def lit_def split: if_splits)
  then obtain r where \<open>l = ''(node (ref "'' @ r\<close>
    by (auto simp: prefix_def)
  then show ?thesis
    by (simp add: startswith_def)
qed

lemma parse_line_declaration:
  assumes "in_nets_section st" and "match_net (strip d) = Some (c, n)"
  shows "parse_line st d =
     Inr (st\<lparr>net_code := Some c, net_name := Some n,
             connections := AList.update n \<lparr>code = c, nodes = []\<rparr> (connections st),
             net_codes := AList.update n c (net_codes st)\<rparr>)"
  using assms match_net_prefix [OF assms(2)]
  by (simp add: parse_line_def Let_def)

lemmas parser_defs = parse_netlist_def parse_line_def init_parse_state_def strip_def
  isspace_def startswith_def match_net_def match_node_def lit_def greedy_plus_def isdigit_def
  re_end_def append_node_def Let_def

lemma match_node_not_marker:
  assumes "match_node l = Some (r, p)"
  shows "\<not> startswith l ''(nets''" and "\<not> startswith l ''(components''"
    and "\<not> startswith l ''(net''"
proof -
  have \<open>prefix ''(node (ref "'' l\<close>
    using assms by (simp add: match_node_def lit_def split: if_splits)
  then obtain t where \<open>l = ''(node (ref "'' @ t\<close>
    by (auto simp: prefix_def)
  then show "\<not> startswith l ''(nets''" and "\<not> startswith l ''(components''"
    and "\<not> startswith l ''(net''"
    by (simp_all add: startswith_def)
qed

lemma parse_line_current_net:
  assumes "parse_inv st" and "net_name st = Some n" and "n \<noteq> []"
    and "map_of (connections st) n = Some e"
    and "in_nets_section st \<longrightarrow> match_net (strip l) = None"
  shows "\<exists>st'. parse_line st l = Inr st' \<and> parse_inv st' \<and> net_name st' = Some n
     \<and> map_of (connections st') n
         = Some (e\<lparr>nodes := nodes e @
              (if in_nets_section st
               then (case node_of_line l of None \<Rightarrow> [] | Some nd \<Rightarrow> [nd]) else [])\<rparr>)"
proof -
  from parse_line_inv [OF assms(1), of l] obtain st' where
    s: "parse_line st l = Inr st'" and i: "parse_inv st'"
    by blast
  have "net_name st' = Some n \<and> map_of (connections st') n
         = Some (e\<lparr>nodes := nodes e @
              (if in_nets_section st
               then (case node_of_line l of None \<Rightarrow> [] | Some nd \<Rightarrow> [nd]) else [])\<rparr>)"
  proof (cases "match_node (strip l)")
    case None
    then show ?thesis
      using s assms(2-5)
      by (auto simp: parse_line_def Let_def split: if_splits)
  next
    case (Some rp)
    obtain r p where rp: "rp = (r, p)" by (cases rp)
    note m = match_node_not_marker [OF Some [unfolded rp]] match_node_prefix [OF Some [unfolded rp]]
    show ?thesis
      using s assms(2-5) Some rp m
      by (auto simp: parse_line_def Let_def append_node_def update_conv' split: if_splits)
  qed
  then show ?thesis
    using s i by blast
qed

lemma map_filter_upt_Suc:
  "List.map_filter f [0..<Suc k]
     = (case f 0 of None \<Rightarrow> [] | Some y \<Rightarrow> [y]) @ List.map_filter (\<lambda>i. f (Suc i)) [0..<k]"
proof -
  have "[0..<Suc k] = 0 # map Suc [0..<k]"
    by (simp add: upt_conv_Cons map_Suc_upt del: upt_Suc)
  then show ?thesis
    by (simp add: List.map_filter_def filter_map comp_def split: option.splits del: upt_Suc)
qed

lemma parse_lines_current_net:
  assumes "parse_inv st" and "net_name st = Some n" and "n \<noteq> []"
    and "map_of (connections st) n = Some e"
    and "\<forall>i<length ls. in_nets_section (snd (parse_lines st (take i ls)))
           \<longrightarrow> match_net (strip (ls ! i)) = None"
  shows "\<exists>st'. parse_lines st ls = (None, st') \<and> parse_inv st' \<and> net_name st' = Some n
     \<and> map_of (connections st') n
         = Some (e\<lparr>nodes := nodes e @ List.map_filter
              (\<lambda>i. if in_nets_section (snd (parse_lines st (take i ls)))
                   then node_of_line (ls ! i) else None) [0..<length ls]\<rparr>)"
  using assms
proof (induction ls arbitrary: st e)
  case Nil
  then show ?case by (simp add: List.map_filter_simps)
next
  case (Cons l ls)
  have l0: "in_nets_section st \<longrightarrow> match_net (strip l) = None"
    using Cons.prems(5) by fastforce
  let ?x = "if in_nets_section st
            then (case node_of_line l of None \<Rightarrow> [] | Some nd \<Rightarrow> [nd]) else []"
  from parse_line_current_net [OF Cons.prems(1-4) l0] obtain st1 where
    s: "parse_line st l = Inr st1" and i: "parse_inv st1" and nn: "net_name st1 = Some n"
    and m: "map_of (connections st1) n = Some (e\<lparr>nodes := nodes e @ ?x\<rparr>)"
    by blast
  have t: "parse_lines st (take (Suc i) (l # ls)) = parse_lines st1 (take i ls)" for i
    by (simp add: s)
  have h: "\<forall>i<length ls. in_nets_section (snd (parse_lines st1 (take i ls)))
           \<longrightarrow> match_net (strip (ls ! i)) = None"
  proof (intro allI impI)
    fix i assume "i < length ls" "in_nets_section (snd (parse_lines st1 (take i ls)))"
    then show "match_net (strip (ls ! i)) = None"
      using Cons.prems(5) [rule_format, of "Suc i"] t [of i] by simp
  qed
  from Cons.IH [OF i nn Cons.prems(3) m h] obtain st' where
    r: "parse_lines st1 ls = (None, st')" "parse_inv st'" "net_name st' = Some n"
    and m': "map_of (connections st') n
         = Some (e\<lparr>nodes := nodes e @ ?x @ List.map_filter
              (\<lambda>i. if in_nets_section (snd (parse_lines st1 (take i ls)))
                   then node_of_line (ls ! i) else None) [0..<length ls]\<rparr>)"
    by auto
  have f0: "(case (if in_nets_section (snd (parse_lines st (take 0 (l # ls))))
                   then node_of_line ((l # ls) ! 0) else None) of None \<Rightarrow> [] | Some y \<Rightarrow> [y]) = ?x"
    by (simp split: option.splits)
  have "List.map_filter
              (\<lambda>i. if in_nets_section (snd (parse_lines st (take i (l # ls))))
                   then node_of_line ((l # ls) ! i) else None) [0..<length (l # ls)]
      = ?x @ List.map_filter
              (\<lambda>i. if in_nets_section (snd (parse_lines st1 (take i ls)))
                   then node_of_line (ls ! i) else None) [0..<length ls]"
    unfolding length_Cons map_filter_upt_Suc f0 t nth_Cons_Suc ..
  then show ?case
    using r m' s by simp
qed

lemma parse_line_not_redeclared:
  assumes "parse_inv st" and "net_name st \<noteq> Some n"
    and "in_nets_section st \<longrightarrow> (\<forall>c'. match_net (strip l) \<noteq> Some (c', n))"
  shows "\<exists>st'. parse_line st l = Inr st' \<and> parse_inv st' \<and> net_name st' \<noteq> Some n
     \<and> map_of (connections st') n = map_of (connections st) n"
proof -
  from parse_line_inv [OF assms(1), of l] obtain st' where
    s: "parse_line st l = Inr st'" and i: "parse_inv st'"
    by blast
  have "net_name st' \<noteq> Some n \<and> map_of (connections st') n = map_of (connections st) n"
    using s assms(2,3)
    by (auto simp: parse_line_def Let_def append_node_def update_conv'
        split: if_splits option.splits)
  then show ?thesis
    using s i by blast
qed

lemma parse_lines_not_redeclared:
  assumes "parse_inv st" and "net_name st \<noteq> Some n"
    and "\<forall>i<length ls. in_nets_section (snd (parse_lines st (take i ls)))
           \<longrightarrow> (\<forall>c'. match_net (strip (ls ! i)) \<noteq> Some (c', n))"
  shows "\<exists>st'. parse_lines st ls = (None, st') \<and> parse_inv st'
     \<and> map_of (connections st') n = map_of (connections st) n"
  using assms
proof (induction ls arbitrary: st)
  case Nil
  then show ?case by simp
next
  case (Cons l ls)
  have l0: "in_nets_section st \<longrightarrow> (\<forall>c'. match_net (strip l) \<noteq> Some (c', n))"
    using Cons.prems(3) by fastforce
  from parse_line_not_redeclared [OF Cons.prems(1,2) l0] obtain st1 where
    s: "parse_line st l = Inr st1" and i: "parse_inv st1" and nn: "net_name st1 \<noteq> Some n"
    and m: "map_of (connections st1) n = map_of (connections st) n"
    by blast
  have t: "parse_lines st (take (Suc i) (l # ls)) = parse_lines st1 (take i ls)" for i
    by (simp add: s)
  have h: "\<forall>i<length ls. in_nets_section (snd (parse_lines st1 (take i ls)))
           \<longrightarrow> (\<forall>c'. match_net (strip (ls ! i)) \<noteq> Some (c', n))"
  proof (intro allI impI)
    fix i c' assume "i < length ls" "in_nets_section (snd (parse_lines st1 (take i ls)))"
    then show "match_net (strip (ls ! i)) \<noteq> Some (c', n)"
      using Cons.prems(3) [rule_format, of "Suc i" c'] t [of i] by simp
  qed
  from Cons.IH [OF i nn h] show ?case
    using s m by auto
qed


lemma last_declaration_split:
  assumes "fs file_path = Inr (pre @ [d] @ mid @ rest)"
    and "inside pre"
    and "match_net (strip d) = Some (c, n)"
    and "n \<noteq> []"
    and "\<forall>i<length mid. inside (pre @ [d] @ take i mid) \<longrightarrow> match_net (strip (mid ! i)) = None"
    and "rest = [] \<or> (inside (pre @ [d] @ mid) \<and> match_net (strip (hd rest)) \<noteq> None)"
    and "\<forall>i<length rest. inside (pre @ [d] @ mid @ take i rest) \<longrightarrow>
           (\<forall>c'. match_net (strip (rest ! i)) \<noteq> Some (c', n))"
  shows "map_of (fst (fst (parse_netlist fs file_path))) n
           = Some \<lparr>code = c,
                   nodes = List.map_filter
                     (\<lambda>i. if inside (pre @ [d] @ take i mid) then node_of_line (mid ! i) else None)
                     [0..<length mid]\<rparr>
       \<and> map_of (snd (fst (parse_netlist fs file_path))) n = Some c"
proof -
  from parse_lines_inv [OF parse_inv_init, of pre] obtain st0
    where p0: "parse_lines init_parse_state pre = (None, st0)" and i0: "parse_inv st0"
    by blast
  have s0: "in_nets_section st0"
    using assms(2) p0 by simp
  define st1 where "st1 = st0\<lparr>net_code := Some c, net_name := Some n,
             connections := AList.update n \<lparr>code = c, nodes = []\<rparr> (connections st0),
             net_codes := AList.update n c (net_codes st0)\<rparr>"
  have p1: "parse_line st0 d = Inr st1"
    using parse_line_declaration [OF s0 assms(3)] by (simp add: st1_def)
  have i1: "parse_inv st1"
    using parse_line_inv [OF i0, of d] p1 by simp
  have s1: "net_name st1 = Some n"
    "map_of (connections st1) n = Some \<lparr>code = c, nodes = []\<rparr>"
    by (simp_all add: st1_def update_conv')
  have from1: "parse_lines init_parse_state (pre @ d # ls) = parse_lines st1 ls" for ls
    by (simp add: parse_lines_append p0 p1)
  have h5: "\<forall>i<length mid. in_nets_section (snd (parse_lines st1 (take i mid)))
           \<longrightarrow> match_net (strip (mid ! i)) = None"
    using assms(5) by (simp add: from1)
  from parse_lines_current_net [OF i1 s1(1) assms(4) s1(2) h5] obtain st2
    where p2: "parse_lines st1 mid = (None, st2)" and i2: "parse_inv st2"
      and n2: "net_name st2 = Some n"
      and m2: "map_of (connections st2) n
                 = Some \<lparr>code = c, nodes = List.map_filter
                     (\<lambda>i. if in_nets_section (snd (parse_lines st1 (take i mid)))
                          then node_of_line (mid ! i) else None) [0..<length mid]\<rparr>"
    by auto
  have from2: "parse_lines init_parse_state (pre @ d # mid @ ls) = parse_lines st2 ls" for ls
    using from1 [of "mid @ ls"] by (simp add: parse_lines_append p2)
  have "\<exists>st3. parse_lines st2 rest = (None, st3) \<and> parse_inv st3
          \<and> map_of (connections st3) n = map_of (connections st2) n"
  proof (cases rest)
    case Nil
    then show ?thesis using i2 by simp
  next
    case (Cons d' post)
    have in2: "in_nets_section st2"
      using assms(6) Cons from1 [of mid] p2 by simp
    from assms(6) Cons obtain c' n' where d': "match_net (strip d') = Some (c', n')"
      by auto
    have ne: "n' \<noteq> n"
      using assms(7) [rule_format, of 0 c'] Cons in2 d' from2 [of "[]"] by auto
    define st3 where "st3 = st2\<lparr>net_code := Some c', net_name := Some n',
             connections := AList.update n' \<lparr>code = c', nodes = []\<rparr> (connections st2),
             net_codes := AList.update n' c' (net_codes st2)\<rparr>"
    have p3: "parse_line st2 d' = Inr st3"
      using parse_line_declaration [OF in2 d'] by (simp add: st3_def)
    have i3: "parse_inv st3"
      using parse_line_inv [OF i2, of d'] p3 by simp
    have n3: "net_name st3 \<noteq> Some n"
      and m3: "map_of (connections st3) n = map_of (connections st2) n"
      using ne by (simp_all add: st3_def update_conv')
    have t: "parse_lines st2 (take (Suc i) rest) = parse_lines st3 (take i post)" for i
      using Cons p3 by simp
    have h: "\<forall>i<length post. in_nets_section (snd (parse_lines st3 (take i post)))
           \<longrightarrow> (\<forall>c'. match_net (strip (post ! i)) \<noteq> Some (c', n))"
    proof (intro allI impI)
      fix i c'' assume "i < length post" "in_nets_section (snd (parse_lines st3 (take i post)))"
      then show "match_net (strip (post ! i)) \<noteq> Some (c'', n)"
        using assms(7) [rule_format, of "Suc i" c''] t [of i] from2 [of "take (Suc i) rest"] Cons
        by simp
    qed
    from parse_lines_not_redeclared [OF i3 n3 h] show ?thesis
      using p3 m3 Cons by auto
  qed
  then obtain st3 where p3: "parse_lines st2 rest = (None, st3)" and i3: "parse_inv st3"
    and m3: "map_of (connections st3) n = map_of (connections st2) n"
    by blast
  have "parse_lines init_parse_state (pre @ [d] @ mid @ rest) = (None, st3)"
    using from2 [of rest] p3 by simp
  then have r: "fst (parse_netlist fs file_path) = (connections st3, net_codes st3)"
    using assms(1) by (simp add: parse_netlist_def)
  have e: "map_of (connections st3) n
     = Some \<lparr>code = c, nodes = List.map_filter
                     (\<lambda>i. if inside (pre @ [d] @ take i mid) then node_of_line (mid ! i) else None)
                     [0..<length mid]\<rparr>"
    using m3 m2 by (simp add: from1)
  have "map_of (net_codes st3) n = Some c"
    using i3 e by simp
  then show ?thesis
    using r e by simp
qed

lemma map_filter_cong_set:
  "(\<And>x. x \<in> set xs \<Longrightarrow> f x = g x) \<Longrightarrow> List.map_filter f xs = List.map_filter g xs"
  by (induction xs) (auto simp: List.map_filter_simps split: option.splits)

text \<open>
  C6. Take a file in which a line \<open>d\<close>, read inside the nets section, declares the
  non-empty net name \<open>n\<close> with code \<open>c\<close>, and in which no later line read inside the nets
  section declares \<open>n\<close> again: \<open>d\<close> is the last occurrence, and earlier occurrences with
  their node lines may come before it. Then the entry of \<open>n\<close> is the one \<open>d\<close> made: its
  code is \<open>c\<close>, and its node list, reset at \<open>d\<close>, holds exactly the node lines read inside
  the nets section after \<open>d\<close> and before the next net declaration (line \<open>m\<close> of what
  follows \<open>d\<close>, or the end of the file), in order. With no such node line the list is
  empty.
\<close>
theorem last_declaration_wins:
  assumes "fs file_path = Inr (pre @ [d] @ post)"
    and "inside pre"
    and "match_net (strip d) = Some (c, n)"
    and "n \<noteq> []"
    and "\<forall>i<length post. inside (pre @ [d] @ take i post) \<longrightarrow>
           (\<forall>c'. match_net (strip (post ! i)) \<noteq> Some (c', n))"
  shows "\<exists>m\<le>length post.
      (\<forall>i<m. inside (pre @ [d] @ take i post) \<longrightarrow> match_net (strip (post ! i)) = None)
    \<and> (m = length post
        \<or> (inside (pre @ [d] @ take m post) \<and> match_net (strip (post ! m)) \<noteq> None))
    \<and> map_of (fst (fst (parse_netlist fs file_path))) n
        = Some \<lparr>code = c,
                nodes = List.map_filter
                  (\<lambda>i. if inside (pre @ [d] @ take i post) then node_of_line (post ! i) else None)
                  [0..<m]\<rparr>
    \<and> map_of (snd (fst (parse_netlist fs file_path))) n = Some c"
proof -
  define P where "P m \<longleftrightarrow> m = length post
        \<or> (inside (pre @ [d] @ take m post) \<and> match_net (strip (post ! m)) \<noteq> None)" for m
  define m where "m = (LEAST m. P m)"
  have "P (length post)"
    by (simp add: P_def)
  then have Pm: "P m" and mle: "m \<le> length post"
    unfolding m_def by (rule LeastI, rule Least_le)
  have least: "\<not> P i" if "i < m" for i
    using that unfolding m_def by (rule not_less_Least)
  let ?mid = "take m post" and ?rest = "drop m post"
  have lm: "length ?mid = m"
    using mle by simp
  have h1: "fs file_path = Inr (pre @ [d] @ ?mid @ ?rest)"
    using assms(1) by simp
  have h5: "\<forall>i<length ?mid. inside (pre @ [d] @ take i ?mid)
              \<longrightarrow> match_net (strip (?mid ! i)) = None"
  proof (intro allI impI)
    fix i assume i: "i < length ?mid" and "inside (pre @ [d] @ take i ?mid)"
    then have "i < m" "inside (pre @ [d] @ take i post)"
      using lm by (simp_all add: min_def)
    then show "match_net (strip (?mid ! i)) = None"
      using least [of i] mle by (cases "match_net (strip (post ! i))") (simp_all add: P_def)
  qed
  have h6: "?rest = [] \<or> (inside (pre @ [d] @ ?mid) \<and> match_net (strip (hd ?rest)) \<noteq> None)"
  proof (cases "m = length post")
    case True
    then show ?thesis by simp
  next
    case False
    then have "m < length post"
      using mle by simp
    then have "hd ?rest = post ! m"
      by (simp add: hd_drop_conv_nth)
    then show ?thesis
      using Pm False by (simp add: P_def)
  qed
  have h7: "\<forall>i<length ?rest. inside (pre @ [d] @ ?mid @ take i ?rest) \<longrightarrow>
           (\<forall>c'. match_net (strip (?rest ! i)) \<noteq> Some (c', n))"
  proof (intro allI impI)
    fix i c' assume i: "i < length ?rest" and s: "inside (pre @ [d] @ ?mid @ take i ?rest)"
    have "?mid @ take i ?rest = take (m + i) post"
      by (simp add: take_add)
    then have "inside (pre @ [d] @ take (m + i) post)"
      using s by simp
    moreover have "m + i < length post"
      using i by simp
    ultimately have "match_net (strip (post ! (m + i))) \<noteq> Some (c', n)"
      using assms(5) by blast
    then show "match_net (strip (?rest ! i)) \<noteq> Some (c', n)"
      using mle by simp
  qed
  have f: "List.map_filter
             (\<lambda>i. if inside (pre @ [d] @ take i ?mid) then node_of_line (?mid ! i) else None)
             [0..<length ?mid]
         = List.map_filter
             (\<lambda>i. if inside (pre @ [d] @ take i post) then node_of_line (post ! i) else None)
             [0..<m]"
    unfolding lm by (rule map_filter_cong_set) (simp add: min_def)
  have a: "\<forall>i<m. inside (pre @ [d] @ take i post) \<longrightarrow> match_net (strip (post ! i)) = None"
  proof (intro allI impI)
    fix i assume "i < m" "inside (pre @ [d] @ take i post)"
    then show "match_net (strip (post ! i)) = None"
      using least [of i] by (cases "match_net (strip (post ! i))") (simp_all add: P_def)
  qed
  have b: "m = length post
        \<or> (inside (pre @ [d] @ take m post) \<and> match_net (strip (post ! m)) \<noteq> None)"
    using Pm by (simp add: P_def)
  note r = last_declaration_split [where fs = fs and file_path = file_path and pre = pre
      and d = d and mid = ?mid and rest = ?rest, OF h1 assms(2-4) h5 h6 h7, unfolded f]
  show ?thesis
    using mle a b r by blast
qed

theorem last_declaration_wins_witness:
  \<open>map_of (fst (fst (parse_netlist
       (\<lambda>p. Inr [''(nets\<newline>'', ''  (net (code "1") (name "A")\<newline>'',
                  ''    (node (ref "R0") (pin "1"))\<newline>'',
                  ''  (net (code "2") (name "A")\<newline>'',
                  ''    (node (ref "R1") (pin "1"))\<newline>'', ''(components\<newline>'',
                  ''    (node (ref "R2") (pin "1"))\<newline>'', ''(nets\<newline>'',
                  ''    (node (ref "R3") (pin "1"))\<newline>'',
                  ''  (net (code "3") (name "B")\<newline>'',
                  ''    (node (ref "R4") (pin "1"))\<newline>'']) ''f.net''))) ''A''
     = Some \<lparr>code = ''2'',
             nodes = [''(node (ref "R1") (pin "1"))'', ''(node (ref "R3") (pin "1"))'']\<rparr>
   \<and> map_of (snd (fst (parse_netlist
       (\<lambda>p. Inr [''(nets\<newline>'', ''  (net (code "1") (name "A")\<newline>'',
                  ''    (node (ref "R0") (pin "1"))\<newline>'',
                  ''  (net (code "2") (name "A")\<newline>'',
                  ''    (node (ref "R1") (pin "1"))\<newline>'', ''(components\<newline>'',
                  ''    (node (ref "R2") (pin "1"))\<newline>'', ''(nets\<newline>'',
                  ''    (node (ref "R3") (pin "1"))\<newline>'',
                  ''  (net (code "3") (name "B")\<newline>'',
                  ''    (node (ref "R4") (pin "1"))\<newline>'']) ''f.net''))) ''A''
     = Some ''2''\<close>
proof -
  let ?pre = \<open>[''(nets\<newline>'', ''  (net (code "1") (name "A")\<newline>'',
                ''    (node (ref "R0") (pin "1"))\<newline>'']\<close>
  let ?d = \<open>''  (net (code "2") (name "A")\<newline>''\<close>
  let ?post = \<open>[''    (node (ref "R1") (pin "1"))\<newline>'', ''(components\<newline>'',
                ''    (node (ref "R2") (pin "1"))\<newline>'', ''(nets\<newline>'',
                ''    (node (ref "R3") (pin "1"))\<newline>'',
                ''  (net (code "3") (name "B")\<newline>'',
                ''    (node (ref "R4") (pin "1"))\<newline>'']\<close>
  let ?fs = "\<lambda>p :: string. Inr (?pre @ [?d] @ ?post) :: py_exception + string list"
  have h1: "?fs ''f.net'' = Inr (?pre @ [?d] @ ?post)"
    by simp
  have h2: "inside ?pre"
    by (simp add: parser_defs)
  have h3: "match_net (strip ?d) = Some (''2'', ''A'')"
    by (simp add: parser_defs)
  have h4: "''A'' \<noteq> []"
    by simp
  have h5: "\<forall>i<length ?post. inside (?pre @ [?d] @ take i ?post) \<longrightarrow>
           (\<forall>c'. match_net (strip (?post ! i)) \<noteq> Some (c', ''A''))"
    by (simp add: All_less_Suc parser_defs)
  from last_declaration_wins [where fs = ?fs and file_path = "''f.net''" and pre = ?pre
        and d = ?d and post = ?post, OF h1 h2 h3 h4 h5]
  have c: "map_of (snd (fst (parse_netlist ?fs ''f.net''))) ''A'' = Some ''2''"
    by blast
  have e: \<open>map_of (fst (fst (parse_netlist ?fs ''f.net''))) ''A''
     = Some \<lparr>code = ''2'',
             nodes = [''(node (ref "R1") (pin "1"))'', ''(node (ref "R3") (pin "1"))'']\<rparr>\<close>
    by (simp add: parser_defs format_node_def)
  show ?thesis
    using c e by simp
qed

text \<open>
  C6, node lines that are not accumulated. After the second declaration of the empty name
  the line that matches the node pattern is skipped, since \<^verbatim>\<open>if net_name:\<close> is false for
  the empty string, and the list stays empty. In the second file the node line after
  \<^verbatim>\<open>(components\<close> and the one after the declaration of \<open>B\<close> are not in the list of \<open>A\<close>.
\<close>

theorem node_lines_not_accumulated:
  \<open>fst (parse_netlist
       (\<lambda>p. Inr [''(nets\<newline>'', ''  (net (code "1") (name "")\<newline>'',
                  ''    (node (ref "R1") (pin "1"))\<newline>'',
                  ''  (net (code "2") (name "")\<newline>'',
                  ''    (node (ref "C1") (pin "1"))\<newline>'']) ''f.net'')
     = ([([], \<lparr>code = ''2'', nodes = []\<rparr>)], [([], ''2'')])
   \<and> match_net (strip ''  (net (code "2") (name "")\<newline>'') = Some (''2'', [])
   \<and> match_node (strip ''    (node (ref "C1") (pin "1"))\<newline>'') = Some (''C1'', ''1'')
   \<and> fst (parse_netlist
       (\<lambda>p. Inr [''(nets\<newline>'', ''  (net (code "1") (name "A")\<newline>'',
                  ''    (node (ref "R0") (pin "1"))\<newline>'',
                  ''  (net (code "2") (name "A")\<newline>'',
                  ''    (node (ref "R1") (pin "1"))\<newline>'', ''(components\<newline>'',
                  ''    (node (ref "R2") (pin "1"))\<newline>'', ''(nets\<newline>'',
                  ''    (node (ref "R3") (pin "1"))\<newline>'',
                  ''  (net (code "3") (name "B")\<newline>'',
                  ''    (node (ref "R4") (pin "1"))\<newline>'']) ''f.net'')
     = ([(''A'', \<lparr>code = ''2'', nodes = [''(node (ref "R1") (pin "1"))'',
                                          ''(node (ref "R3") (pin "1"))'']\<rparr>),
         (''B'', \<lparr>code = ''3'', nodes = [''(node (ref "R4") (pin "1"))'']\<rparr>)],
        [(''A'', ''2''), (''B'', ''3'')])\<close>
  by (simp add: parser_defs format_node_def)

subsection \<open>The categories\<close>

lemma startswith_char: "startswith r [c] \<longleftrightarrow> r \<noteq> [] \<and> hd r = c"
  by (cases r) (auto simp: startswith_def)

lemma foldl_categorize_node:
  "foldl categorize_node cats ns =
     cats\<lparr>Capacitors := Capacitors cats
              + length [x \<leftarrow> ns. case search_ref x of Some r \<Rightarrow> startswith r ''C'' | None \<Rightarrow> False],
          Resistors := Resistors cats
              + length [x \<leftarrow> ns. case search_ref x of
                    Some r \<Rightarrow> \<not> startswith r ''C'' \<and> startswith r ''R'' | None \<Rightarrow> False],
          Others := Others cats
              + length [x \<leftarrow> ns. case search_ref x of
                    Some r \<Rightarrow> \<not> startswith r ''C'' \<and> \<not> startswith r ''R'' | None \<Rightarrow> False]\<rparr>"
proof (induction ns arbitrary: cats)
  case Nil
  show ?case by simp
next
  case (Cons a ns)
  show ?case
    unfolding foldl_Cons Cons.IH
    by (simp add: categorize_node_def split: option.splits)
qed

lemma lazy_any_no_newline:
  "lazy_any k s = Some (g, x) \<Longrightarrow> CHR 0x0A \<notin> set g"
  by (induction s arbitrary: g) (auto split: option.splits if_splits)

lemma match_node_no_newline:
  assumes "match_node l = Some (r, p)"
  shows "CHR 0x0A \<notin> set r"
  using assms
  by (auto simp: match_node_def lit_def split: if_splits option.splits
      dest: lazy_any_no_newline)

lemma lazy_ref_group:
  assumes "CHR 0x0A \<notin> set r"
  shows \<open>\<exists>r'. lazy_any (lit ''")'' re_end) (r @ ''")'' @ t) = Some (r', ())
           \<and> (r' = [] \<longrightarrow> r = [] \<or> hd r = CHR 0x22)
           \<and> (r' \<noteq> [] \<longrightarrow> r \<noteq> [] \<and> hd r' = hd r)\<close>
proof -
  define K where \<open>K = lit ''")'' re_end\<close>
  have k: \<open>K s = (if prefix ''")'' s then Some () else None)\<close> for s
    by (simp add: K_def lit_def re_end_def)
  have \<open>\<exists>r'. lazy_any K (r @ ''")'' @ t) = Some (r', ())
           \<and> (r' = [] \<longrightarrow> r = [] \<or> hd r = CHR 0x22)
           \<and> (r' \<noteq> [] \<longrightarrow> r \<noteq> [] \<and> hd r' = hd r)\<close>
    using assms
  proof (induction r)
    case Nil
    show ?case by (simp add: k)
  next
    case (Cons c cs)
    from Cons obtain r' where r': \<open>lazy_any K (cs @ ''")'' @ t) = Some (r', ())\<close>
      by auto
    have c: "c \<noteq> CHR 0x0A"
      using Cons.prems by auto
    show ?case
    proof (cases \<open>prefix ''")'' ((c # cs) @ ''")'' @ t)\<close>)
      case True
      have \<open>K ((c # cs) @ ''")'' @ t) = Some ()\<close>
        using True by (simp only: k if_True)
      then have \<open>lazy_any K ((c # cs) @ ''")'' @ t) = Some ([], ())\<close>
        by simp
      moreover have "c = CHR 0x22"
        using True by simp
      ultimately show ?thesis
        by simp
    next
      case False
      have \<open>K ((c # cs) @ ''")'' @ t) = None\<close>
        using False by (simp only: k if_False)
      then have \<open>lazy_any K ((c # cs) @ ''")'' @ t) = Some (c # r', ())\<close>
        using c r' by simp
      then show ?thesis
        by simp
    qed
  qed
  then show ?thesis
    by (simp add: K_def)
qed

lemma search_ref_format_node:
  assumes "CHR 0x0A \<notin> set r"
  shows "\<exists>r'. search_ref (format_node r p) = Some r'
     \<and> (startswith r' ''C'' \<longleftrightarrow> startswith r ''C'')
     \<and> (startswith r' ''R'' \<longleftrightarrow> startswith r ''R'')"
proof -
  from lazy_ref_group [OF assms, of \<open>'' (pin "'' @ p @ ''"))''\<close>] obtain r' where
    l: \<open>lazy_any (lit ''")'' re_end) (r @ ''")'' @ '' (pin "'' @ p @ ''"))'') = Some (r', ())\<close>
    and e: "r' = [] \<longrightarrow> r = [] \<or> hd r = CHR 0x22"
    and h: "r' \<noteq> [] \<longrightarrow> r \<noteq> [] \<and> hd r' = hd r"
    by blast
  have "search_ref (format_node r p) = Some r'"
    using l by (simp add: search_ref_def format_node_def lit_def)
  moreover have "(startswith r' ''C'' \<longleftrightarrow> startswith r ''C'')"
    "(startswith r' ''R'' \<longleftrightarrow> startswith r ''R'')"
    using e h by (auto simp: startswith_char)
  ultimately show ?thesis by blast
qed


lemma parse_line_nodes_formatted:
  assumes "nodes_formatted st" and "parse_line st l = Inr st'"
  shows "nodes_formatted st'"
proof -
  have node: "nodes_formatted st2"
    if "append_node st n (format_node r p) = Inr st2" "match_node s = Some (r, p)" for n r p s st2
  proof -
    have nl: "CHR 0x0A \<notin> set r"
      using match_node_no_newline [OF that(2)] .
    from that(1) obtain e where e: "map_of (connections st) n = Some e"
      and st2: "st2 = st\<lparr>connections :=
                 AList.update n (e\<lparr>nodes := nodes e @ [format_node r p]\<rparr>) (connections st)\<rparr>"
      by (auto simp: append_node_def split: option.splits)
    show ?thesis
      using assms(1) e nl by (auto simp: st2 update_conv')
  qed
  show ?thesis
    using assms node
    by (auto simp: parse_line_def Let_def update_conv' split: if_splits option.splits)
qed

lemma parse_lines_nodes_formatted:
  "nodes_formatted st \<Longrightarrow> parse_lines st ls = (x, st') \<Longrightarrow> nodes_formatted st'"
proof (induction ls arbitrary: st)
  case Nil
  then show ?case by simp
next
  case (Cons l ls)
  show ?case
  proof (cases "parse_line st l")
    case (Inl e)
    then show ?thesis using Cons.prems by simp
  next
    case (Inr st1)
    have "nodes_formatted st1"
      using parse_line_nodes_formatted [OF Cons.prems(1) Inr] .
    moreover have "parse_lines st1 ls = (x, st')"
      using Cons.prems(2) Inr by simp
    ultimately show ?thesis
      by (rule Cons.IH)
  qed
qed

lemma parsed_nodes_have_ref:
  assumes "x \<in> set (get_nodes (fst (fst (parse_netlist fs file_path))) name)"
  shows "\<exists>r. search_ref x = Some r"
proof (cases "fs file_path")
  case (Inl e)
  then show ?thesis
    using assms by (simp add: parse_netlist_def get_nodes_def)
next
  case (Inr ls)
  obtain y st where p: "parse_lines init_parse_state ls = (y, st)"
    by (cases "parse_lines init_parse_state ls")
  have "nodes_formatted init_parse_state"
    by (simp add: init_parse_state_def)
  then have f: "nodes_formatted st"
    using p by (rule parse_lines_nodes_formatted)
  have "fst (fst (parse_netlist fs file_path)) = connections st"
    using Inr p by (simp add: parse_netlist_def split: option.splits)
  then have "x \<in> set (get_nodes (connections st) name)"
    using assms by simp
  then obtain e where "map_of (connections st) name = Some e" "x \<in> set (nodes e)"
    by (cases "map_of (connections st) name") (simp_all add: get_nodes_def)
  with f obtain r p where "x = format_node r p" "CHR 0x0A \<notin> set r"
    by blast
  then show ?thesis
    using search_ref_format_node [of r p] by auto
qed


text \<open>
  C8. \<open>categorize_nodes\<close> counts a node string by the reference designator found in it: as
  a capacitor when it starts with the character ``C'', as a resistor when it starts with
  ``R'', as other in the remaining cases (the empty one included). Only the first
  character is looked at, with its case, so ``CR1'' is a capacitor. Every node string that
  \<open>parse_netlist\<close> stores has a reference designator to be found, with the first character
  of the one on the node line, so every node is counted in exactly one category.
\<close>
theorem categorize_nodes_by_first_character:
  \<open>(\<forall>r. search_ref node = Some r \<longrightarrow>
      categorize_nodes (ns @ [node]) =
        (if startswith r ''C''
         then (categorize_nodes ns)\<lparr>Capacitors := Capacitors (categorize_nodes ns) + 1\<rparr>
         else if startswith r ''R''
         then (categorize_nodes ns)\<lparr>Resistors := Resistors (categorize_nodes ns) + 1\<rparr>
         else (categorize_nodes ns)\<lparr>Others := Others (categorize_nodes ns) + 1\<rparr>))
   \<and> Capacitors (categorize_nodes ns)
      = length [x \<leftarrow> ns. case search_ref x of
                  Some r \<Rightarrow> r \<noteq> [] \<and> hd r = CHR ''C'' | None \<Rightarrow> False]
   \<and> Resistors (categorize_nodes ns)
      = length [x \<leftarrow> ns. case search_ref x of
                  Some r \<Rightarrow> r \<noteq> [] \<and> hd r = CHR ''R'' | None \<Rightarrow> False]
   \<and> Others (categorize_nodes ns)
      = length [x \<leftarrow> ns. case search_ref x of
                  Some r \<Rightarrow> r = [] \<or> (hd r \<noteq> CHR ''C'' \<and> hd r \<noteq> CHR ''R'') | None \<Rightarrow> False]
   \<and> ((\<forall>x \<in> set ns. \<exists>r. search_ref x = Some r) \<longrightarrow>
        Capacitors (categorize_nodes ns) + Resistors (categorize_nodes ns)
          + Others (categorize_nodes ns) = length ns)
   \<and> (\<forall>fs file_path name. \<forall>x \<in> set (get_nodes (fst (fst (parse_netlist fs file_path))) name).
        \<exists>r. search_ref x = Some r)
   \<and> (\<forall>l r p. match_node l = Some (r, p) \<longrightarrow>
        (\<exists>r'. search_ref (format_node r p) = Some r'
           \<and> (startswith r' ''C'' \<longleftrightarrow> startswith r ''C'')
           \<and> (startswith r' ''R'' \<longleftrightarrow> startswith r ''R'')))
   \<and> categorize_nodes [format_node ''CR1'' p]
      = \<lparr>Capacitors = 1, Resistors = 0, Others = 0\<rparr>\<close>
proof -
  have 0: "categorize_nodes (ns @ [node]) =
        (if startswith r ''C''
         then (categorize_nodes ns)\<lparr>Capacitors := Capacitors (categorize_nodes ns) + 1\<rparr>
         else if startswith r ''R''
         then (categorize_nodes ns)\<lparr>Resistors := Resistors (categorize_nodes ns) + 1\<rparr>
         else (categorize_nodes ns)\<lparr>Others := Others (categorize_nodes ns) + 1\<rparr>)"
    if "search_ref node = Some r" for r
    using that by (simp add: categorize_nodes_def categorize_node_def)
  have 1: "Capacitors (categorize_nodes ns)
      = length [x \<leftarrow> ns. case search_ref x of
                  Some r \<Rightarrow> r \<noteq> [] \<and> hd r = CHR ''C'' | None \<Rightarrow> False]"
    unfolding categorize_nodes_def foldl_categorize_node
    by (auto intro!: arg_cong [where f = length] filter_cong simp: startswith_char
        split: option.splits)
  have 2: "Resistors (categorize_nodes ns)
      = length [x \<leftarrow> ns. case search_ref x of
                  Some r \<Rightarrow> r \<noteq> [] \<and> hd r = CHR ''R'' | None \<Rightarrow> False]"
    unfolding categorize_nodes_def foldl_categorize_node
    by (auto intro!: arg_cong [where f = length] filter_cong simp: startswith_char
        split: option.splits)
  have 3: "Others (categorize_nodes ns)
      = length [x \<leftarrow> ns. case search_ref x of
                  Some r \<Rightarrow> r = [] \<or> (hd r \<noteq> CHR ''C'' \<and> hd r \<noteq> CHR ''R'') | None \<Rightarrow> False]"
    unfolding categorize_nodes_def foldl_categorize_node
    by (auto intro!: arg_cong [where f = length] filter_cong simp: startswith_char
        split: option.splits)
  have 4: "Capacitors (categorize_nodes ns) + Resistors (categorize_nodes ns)
          + Others (categorize_nodes ns) = length ns"
    if "\<forall>x \<in> set ns. \<exists>r. search_ref x = Some r"
    using that unfolding 1 2 3
  proof (induction ns)
    case Nil
    show ?case by simp
  next
    case (Cons a ns)
    then obtain r where "search_ref a = Some r"
      by auto
    then show ?case
      using Cons by auto
  qed
  have 5: "\<exists>r. search_ref x = Some r"
    if "x \<in> set (get_nodes (fst (fst (parse_netlist fs file_path))) name)"
    for fs file_path name x
    using parsed_nodes_have_ref [OF that] .
  have 6: "\<exists>r'. search_ref (format_node r p) = Some r'
           \<and> (startswith r' ''C'' \<longleftrightarrow> startswith r ''C'')
           \<and> (startswith r' ''R'' \<longleftrightarrow> startswith r ''R'')"
    if "match_node l = Some (r, p)" for l r p
    using search_ref_format_node [OF match_node_no_newline [OF that]] .
  have 7: "categorize_nodes [format_node ''CR1'' p]
      = \<lparr>Capacitors = 1, Resistors = 0, Others = 0\<rparr>"
  proof -
    from search_ref_format_node [of "''CR1''" p] obtain r' where
      "search_ref (format_node ''CR1'' p) = Some r'" "startswith r' ''C''"
      by (auto simp: startswith_def)
    then show ?thesis
      by (simp add: categorize_nodes_def categorize_node_def)
  qed
  show ?thesis
    using 0 1 2 3 4 5 6 7 by blast
qed

theorem categorize_nodes_by_first_character_witness:
  \<open>search_ref (format_node ''R7'' ''2'') = Some ''R7''
   \<and> categorize_nodes ([format_node ''C10'' ''1'', format_node ''U3'' ''4''] @ [format_node ''R7'' ''2''])
      = \<lparr>Capacitors = 1, Resistors = 1, Others = 1\<rparr>
   \<and> Capacitors (categorize_nodes [format_node ''C10'' ''1'', format_node ''R7'' ''2'',
         format_node ''U3'' ''4'', format_node ''D2'' ''1'', format_node ''c5'' ''1'']) = 1
   \<and> Others (categorize_nodes [format_node ''C10'' ''1'', format_node ''R7'' ''2'',
         format_node ''U3'' ''4'', format_node ''D2'' ''1'', format_node ''c5'' ''1'']) = 3\<close>
proof -
  have h: \<open>search_ref (format_node ''R7'' ''2'') = Some ''R7''\<close>
    by (simp add: search_ref_def format_node_def lit_def re_end_def)
  have s: "\<not> startswith ''R7'' ''C''" "startswith ''R7'' ''R''"
    by (simp_all add: startswith_def)
  have c: "categorize_nodes [format_node ''C10'' ''1'', format_node ''U3'' ''4'']
      = \<lparr>Capacitors = 1, Resistors = 0, Others = 1\<rparr>"
    by (simp add: categorize_nodes_def categorize_node_def search_ref_def format_node_def
        lit_def re_end_def startswith_def)
  note t = categorize_nodes_by_first_character
      [of "format_node ''R7'' ''2''" "[format_node ''C10'' ''1'', format_node ''U3'' ''4'']"]
  from t have "\<forall>r. search_ref (format_node ''R7'' ''2'') = Some r \<longrightarrow>
      categorize_nodes ([format_node ''C10'' ''1'', format_node ''U3'' ''4''] @ [format_node ''R7'' ''2'']) =
        (if startswith r ''C''
         then (categorize_nodes [format_node ''C10'' ''1'', format_node ''U3'' ''4''])
            \<lparr>Capacitors := Capacitors (categorize_nodes [format_node ''C10'' ''1'', format_node ''U3'' ''4'']) + 1\<rparr>
         else if startswith r ''R''
         then (categorize_nodes [format_node ''C10'' ''1'', format_node ''U3'' ''4''])
            \<lparr>Resistors := Resistors (categorize_nodes [format_node ''C10'' ''1'', format_node ''U3'' ''4'']) + 1\<rparr>
         else (categorize_nodes [format_node ''C10'' ''1'', format_node ''U3'' ''4''])
            \<lparr>Others := Others (categorize_nodes [format_node ''C10'' ''1'', format_node ''U3'' ''4'']) + 1\<rparr>)"
    by (rule conjunct1)
  from this [rule_format, OF h]
  have a: "categorize_nodes ([format_node ''C10'' ''1'', format_node ''U3'' ''4''] @ [format_node ''R7'' ''2''])
      = \<lparr>Capacitors = 1, Resistors = 1, Others = 1\<rparr>"
    using s by (simp add: c)
  note u = categorize_nodes_by_first_character [of "''x''" "[format_node ''C10'' ''1'',
         format_node ''R7'' ''2'', format_node ''U3'' ''4'', format_node ''D2'' ''1'',
         format_node ''c5'' ''1'']"]
  have b: "Capacitors (categorize_nodes [format_node ''C10'' ''1'', format_node ''R7'' ''2'',
         format_node ''U3'' ''4'', format_node ''D2'' ''1'', format_node ''c5'' ''1'']) = 1"
    "Others (categorize_nodes [format_node ''C10'' ''1'', format_node ''R7'' ''2'',
         format_node ''U3'' ''4'', format_node ''D2'' ''1'', format_node ''c5'' ''1'']) = 3"
    using u by (simp_all add: search_ref_def format_node_def lit_def re_end_def)
  show ?thesis
    using h a b by blast
qed

subsection \<open>The report\<close>

lemma str_replace_Nil: "old \<noteq> [] \<Longrightarrow> str_replace [] old new = []"
  by (simp add: str_replace.simps)

lemma str_replace_Cons:
  "old \<noteq> [] \<Longrightarrow> str_replace (c # s) old new =
     (if prefix old (c # s) then new @ str_replace (drop (length old) (c # s)) old new
      else c # str_replace s old new)"
  by (subst str_replace.simps) simp

lemma str_replace_hit:
  assumes "old \<noteq> []"
  shows "str_replace (old @ s) old new = new @ str_replace s old new"
  using assms by (subst str_replace.simps) simp

lemma str_replace_joined:
  assumes "old \<noteq> []"
  shows "\<exists>ps. ps \<noteq> [] \<and> s = joined old ps \<and> str_replace s old new = joined new ps
           \<and> (\<forall>p \<in> set ps. \<not> sublist old p)"
  using assms
proof (induction s old new rule: str_replace.induct)
  case (1 s old new)
  show ?case
  proof (cases "prefix old s")
    case True
    then obtain s' where s: "s = old @ s'"
      by (auto simp: prefix_def)
    from "1.IH"(1) [OF "1.prems" True] "1.prems" s obtain ps where
      ps: "ps \<noteq> []" "s' = joined old ps" "str_replace s' old new = joined new ps"
        "\<forall>p \<in> set ps. \<not> sublist old p"
      by auto
    have r: "str_replace s old new = new @ str_replace s' old new"
      using "1.prems" s by (simp add: str_replace_hit)
    have n: "\<not> sublist old []"
      using "1.prems" by simp
    show ?thesis
      by (rule exI [where x = "[] # ps"]) (use ps s r n in simp)
  next
    case False
    show ?thesis
    proof (cases s)
      case Nil
      have "str_replace [] old new = []"
        using "1.prems" by (simp add: str_replace_Nil)
      then show ?thesis
        using Nil "1.prems" by (intro exI [where x = "[[]]"]) simp
    next
      case (Cons c cs)
      from "1.IH"(2) [OF "1.prems" False Cons] "1.prems" obtain ps where
        ps: "ps \<noteq> []" "cs = joined old ps" "str_replace cs old new = joined new ps"
          "\<forall>p \<in> set ps. \<not> sublist old p"
        by auto
      obtain p rest where pr: "ps = p # rest"
        using ps(1) by (cases ps) auto
      have r: "str_replace s old new = c # str_replace cs old new"
        using "1.prems" False Cons by (simp add: str_replace_Cons)
      have pre: "prefix (c # p) s"
        using Cons ps(2) pr by (cases rest) (auto simp: prefix_def)
      have "\<not> prefix old (c # p)"
        using False pre prefix_order.trans by blast
      then have n: "\<not> sublist old (c # p)"
        using ps(4) pr by (simp add: sublist_Cons_right)
      show ?thesis
        by (rule exI [where x = "(c # p) # rest"]) (use ps pr Cons r n in \<open>cases rest; simp\<close>)
    qed
  qed
qed


text \<open>
  C7. For every template and every generated fragment, each \<^verbatim>\<open>replace\<close> call replaces
  every occurrence of its token: the text it receives is a list of pieces joined by the
  token, no piece containing the token, and what it returns is the same pieces joined by
  the fragment. A token is thus replaced as many times as it occurs: once when it occurs
  once, twice when it occurs twice, not at all when it does not occur. The calls run in
  the order rows, detailed rows, footer, each on the result of the one before.
\<close>
theorem every_placeholder_occurrence_replaced:
  "\<exists>ps1 ps2 ps3.
     ps1 \<noteq> [] \<and> template = joined ph_rows ps1 \<and> (\<forall>p \<in> set ps1. \<not> sublist ph_rows p)
   \<and> ps2 \<noteq> [] \<and> joined (render_rows rs) ps1 = joined ph_detailed_rows ps2
       \<and> (\<forall>p \<in> set ps2. \<not> sublist ph_detailed_rows p)
   \<and> ps3 \<noteq> [] \<and> joined (render_detailed_rows ds) ps2 = joined ph_footer_info ps3
       \<and> (\<forall>p \<in> set ps3. \<not> sublist ph_footer_info p)
   \<and> generate_html_report (Inr template) rs ds matched mismatched =
       Inr (joined (render_footer matched mismatched) ps3,
            [''HTML report generated as '' @ [CHR 0x27] @ ''comparison_report.html''
               @ [CHR 0x27]])"
proof -
  have ne: "ph_rows \<noteq> []" "ph_detailed_rows \<noteq> []" "ph_footer_info \<noteq> []"
    by (simp_all add: ph_rows_def ph_detailed_rows_def ph_footer_info_def)
  from str_replace_joined [OF ne(1), of template "render_rows rs"] obtain ps1 where
    1: "ps1 \<noteq> []" "template = joined ph_rows ps1"
      "str_replace template ph_rows (render_rows rs) = joined (render_rows rs) ps1"
      "\<forall>p \<in> set ps1. \<not> sublist ph_rows p"
    by blast
  from str_replace_joined [OF ne(2), of "joined (render_rows rs) ps1" "render_detailed_rows ds"]
  obtain ps2 where
    2: "ps2 \<noteq> []" "joined (render_rows rs) ps1 = joined ph_detailed_rows ps2"
      "str_replace (joined (render_rows rs) ps1) ph_detailed_rows (render_detailed_rows ds)
         = joined (render_detailed_rows ds) ps2"
      "\<forall>p \<in> set ps2. \<not> sublist ph_detailed_rows p"
    by blast
  from str_replace_joined [OF ne(3), of "joined (render_detailed_rows ds) ps2"
      "render_footer matched mismatched"]
  obtain ps3 where
    3: "ps3 \<noteq> []" "joined (render_detailed_rows ds) ps2 = joined ph_footer_info ps3"
      "str_replace (joined (render_detailed_rows ds) ps2) ph_footer_info
         (render_footer matched mismatched) = joined (render_footer matched mismatched) ps3"
      "\<forall>p \<in> set ps3. \<not> sublist ph_footer_info p"
    by blast
  have "generate_html_report (Inr template) rs ds matched mismatched =
       Inr (joined (render_footer matched mismatched) ps3,
            [''HTML report generated as '' @ [CHR 0x27] @ ''comparison_report.html''
               @ [CHR 0x27]])"
    unfolding generate_html_report_def fill_template_def
    by (simp only: 1(3) 2(3) 3(3) sum.case)
  then show ?thesis
    using 1(1,2,4) 2(1,2,4) 3(1,2,4) by blast
qed

theorem every_placeholder_occurrence_replaced_witness:
  "generate_html_report
     (Inr ''<style>td { margin: 0 }</style><table>{{ rows }}</table><table>{{ detailed_rows }}</table>{{ footer_info }}'')
     [(''/a{slash}b'', ''1'', 2, ''1'', 2, False)] [] 1 0 =
   Inr (''<style>td { margin: 0 }</style><table>''
          @ render_rows [(''/a{slash}b'', ''1'', 2, ''1'', 2, False)] @ ''</table><table>''
          @ ''</table>'' @ render_footer 1 0,
        [''HTML report generated as '' @ [CHR 0x27] @ ''comparison_report.html'' @ [CHR 0x27]])
   \<and> (\<exists>ps1 ps2 ps3.
     ps1 \<noteq> []
   \<and> ''<style>td { margin: 0 }</style><table>{{ rows }}</table><table>{{ detailed_rows }}</table>{{ footer_info }}''
       = joined ph_rows ps1
   \<and> ps2 \<noteq> [] \<and> joined (render_rows [(''/a{slash}b'', ''1'', 2, ''1'', 2, False)]) ps1
       = joined ph_detailed_rows ps2
   \<and> ps3 \<noteq> [] \<and> joined (render_detailed_rows []) ps2 = joined ph_footer_info ps3
   \<and> generate_html_report
     (Inr ''<style>td { margin: 0 }</style><table>{{ rows }}</table><table>{{ detailed_rows }}</table>{{ footer_info }}'')
     [(''/a{slash}b'', ''1'', 2, ''1'', 2, False)] [] 1 0 =
       Inr (joined (render_footer 1 0) ps3,
            [''HTML report generated as '' @ [CHR 0x27] @ ''comparison_report.html''
               @ [CHR 0x27]]))"
proof -
  have e: "generate_html_report
     (Inr ''<style>td { margin: 0 }</style><table>{{ rows }}</table><table>{{ detailed_rows }}</table>{{ footer_info }}'')
     [(''/a{slash}b'', ''1'', 2, ''1'', 2, False)] [] 1 0 =
   Inr (''<style>td { margin: 0 }</style><table>''
          @ render_rows [(''/a{slash}b'', ''1'', 2, ''1'', 2, False)] @ ''</table><table>''
          @ ''</table>'' @ render_footer 1 0,
        [''HTML report generated as '' @ [CHR 0x27] @ ''comparison_report.html'' @ [CHR 0x27]])"
    by (simp add: generate_html_report_def fill_template_def render_rows_def render_row_def
        render_detailed_rows_def enumerate1_def ph_rows_def ph_detailed_rows_def
        ph_footer_info_def str_replace_Cons str_replace_Nil render_footer_def html_line_def
        str_nat.simps eval_nat_numeral)
  show ?thesis
    using e every_placeholder_occurrence_replaced
      [of "''<style>td { margin: 0 }</style><table>{{ rows }}</table><table>{{ detailed_rows }}</table>{{ footer_info }}''"
          "[(''/a{slash}b'', ''1'', 2, ''1'', 2, False)]" "[]" 1 0]
    by blast
qed

text \<open>
  C7, a token twice. A template with the footer token twice gets the footer twice, and
  the tokens it does not contain are replaced zero times: the number of replacements is
  the number of occurrences, not one.
\<close>

theorem placeholder_replaced_twice:
  "generate_html_report (Inr ''{{ footer_info }}|{{ footer_info }}'') [] [] 1 2 =
   Inr (render_footer 1 2 @ ''|'' @ render_footer 1 2,
        [''HTML report generated as '' @ [CHR 0x27] @ ''comparison_report.html'' @ [CHR 0x27]])
   \<and> render_footer 1 2 \<noteq> []"
  by (simp add: generate_html_report_def fill_template_def render_rows_def
      render_detailed_rows_def enumerate1_def ph_rows_def ph_detailed_rows_def
      ph_footer_info_def str_replace_Cons str_replace_Nil render_footer_def html_line_def)

end
